theory Spec2Isabelle
  imports Main "HOL-Library.Word" "HOL-Library.List_Lexorder"
begin

section \<open>JavaScript strings\<close>

text \<open>
  A JavaScript string is a sequence of 16-bit code units. String literals of the source
  are written with \<open>lit\<close>, which maps each (ASCII) character of an Isabelle
  string literal to its code unit.
\<close>

type_synonym code_unit = "16 word"
type_synonym jsstring = "code_unit list"

definition cu :: "char \<Rightarrow> code_unit" where
  "cu c = of_char c"

definition lit :: "string \<Rightarrow> jsstring" where
  "lit s = map cu s"

text \<open>The two quote characters, which cannot be written inside a literal.\<close>

definition dq :: code_unit where
  "dq = 0x22"

definition sq :: code_unit where
  "sq = 0x27"

text \<open>\<open>String.prototype.startsWith\<close>, \<open>includes\<close> and \<open>slice(1)\<close>.\<close>

fun startsWith :: "jsstring \<Rightarrow> jsstring \<Rightarrow> bool" where
  "startsWith s [] = True"
| "startsWith [] (p # ps) = False"
| "startsWith (c # cs) (p # ps) = (c = p \<and> startsWith cs ps)"

fun includes_str :: "jsstring \<Rightarrow> jsstring \<Rightarrow> bool" where
  "includes_str [] p = (p = [])"
| "includes_str (c # cs) p = (startsWith (c # cs) p \<or> includes_str cs p)"

definition slice1 :: "jsstring \<Rightarrow> jsstring" where
  "slice1 s = drop 1 s"

text \<open>
  \<open>String.prototype.replace\<close> with a string pattern replaces the first occurrence only.
  The two replacement strings the source passes this way (\<open>''\<close> and
  \<open>'charset=utf-8'\<close>) contain no \<open>$\<close>, so the replacement is inserted literally.
\<close>

fun replace_str :: "jsstring \<Rightarrow> jsstring \<Rightarrow> jsstring \<Rightarrow> jsstring" where
  "replace_str [] p r = (if p = [] then r else [])"
| "replace_str (c # cs) p r =
     (if startsWith (c # cs) p then r @ drop (length p) (c # cs)
      else c # replace_str cs p r)"

section \<open>Regular expressions\<close>

text \<open>
  The fragment of ECMAScript regular expressions that the source uses: characters,
  the dot, a character class, the start assertion, sequence, alternation, the greedy
  option \<open>?\<close>, the lazy star \<open>*?\<close>, capture groups and the negative lookahead.
\<close>

datatype regex =
    Eps
  | Chr code_unit
  | Dot
  | OneOf "code_unit list"
  | Bol
  | Seq regex regex
  | Alt regex regex
  | Opt regex
  | LazyStar regex
  | Group nat regex
  | NotAhead regex

text \<open>
  A matcher state: the index reached in the input, the input that remains, and the
  captures made so far (group number and captured text, latest first).
\<close>

record mstate =
  pos :: nat
  rest :: jsstring
  caps :: "(nat \<times> jsstring) list"

text \<open>Line terminators, which the dot does not match.\<close>

definition line_terminator :: "code_unit \<Rightarrow> bool" where
  "line_terminator c = (c = 0x0A \<or> c = 0x0D \<or> c = 0x2028 \<or> c = 0x2029)"

text \<open>
  The lazy star tries the empty iteration first and then one more iteration; an
  iteration that consumes nothing is rejected, so the length of the remaining input
  bounds the number of iterations.
\<close>

fun lazy_star :: "nat \<Rightarrow> (mstate \<Rightarrow> mstate list) \<Rightarrow> mstate \<Rightarrow> mstate list" where
  "lazy_star 0 f st = [st]"
| "lazy_star (Suc n) f st =
     st # concat (map (\<lambda>st'. if length (rest st') < length (rest st)
                               then lazy_star n f st' else []) (f st))"

text \<open>
  The backtracking matcher: all the ways the expression matches at the state, in the
  order in which backtracking tries them. The first one is the match.
\<close>

primrec ms :: "regex \<Rightarrow> mstate \<Rightarrow> mstate list" where
  "ms Eps st = [st]"
| "ms (Chr c) st =
     (case rest st of [] \<Rightarrow> []
      | d # ds \<Rightarrow> if d = c then [st\<lparr>pos := Suc (pos st), rest := ds\<rparr>] else [])"
| "ms Dot st =
     (case rest st of [] \<Rightarrow> []
      | d # ds \<Rightarrow> if line_terminator d then [] else [st\<lparr>pos := Suc (pos st), rest := ds\<rparr>])"
| "ms (OneOf cs) st =
     (case rest st of [] \<Rightarrow> []
      | d # ds \<Rightarrow> if d \<in> set cs then [st\<lparr>pos := Suc (pos st), rest := ds\<rparr>] else [])"
| "ms Bol st = (if pos st = 0 then [st] else [])"
| "ms (Seq a b) st = concat (map (ms b) (ms a st))"
| "ms (Alt a b) st = ms a st @ ms b st"
| "ms (Opt a) st = ms a st @ [st]"
| "ms (LazyStar a) st = lazy_star (length (rest st)) (ms a) st"
| "ms (Group i a) st =
     map (\<lambda>st'. st'\<lparr>caps := (i, take (pos st' - pos st) (rest st)) # caps st'\<rparr>) (ms a st)"
| "ms (NotAhead a) st = (if ms a st = [] then [st] else [])"

text \<open>A sequence of expressions, and a literal string as an expression.\<close>

fun seqs :: "regex list \<Rightarrow> regex" where
  "seqs [] = Eps"
| "seqs [r] = r"
| "seqs (r # rs) = Seq r (seqs rs)"

definition str :: "string \<Rightarrow> regex" where
  "str s = seqs (map (\<lambda>c. Chr (cu c)) s)"

text \<open>The number of capture groups of an expression.\<close>

primrec ngroups :: "regex \<Rightarrow> nat" where
  "ngroups Eps = 0"
| "ngroups (Chr c) = 0"
| "ngroups Dot = 0"
| "ngroups (OneOf cs) = 0"
| "ngroups Bol = 0"
| "ngroups (Seq a b) = ngroups a + ngroups b"
| "ngroups (Alt a b) = ngroups a + ngroups b"
| "ngroups (Opt a) = ngroups a"
| "ngroups (LazyStar a) = ngroups a"
| "ngroups (Group i a) = Suc (ngroups a)"
| "ngroups (NotAhead a) = ngroups a"

text \<open>
  A match attempt at one index: the number of code units matched and the captures,
  or \<open>None\<close>.
\<close>

definition match_at :: "regex \<Rightarrow> nat \<Rightarrow> jsstring \<Rightarrow> (nat \<times> (nat \<times> jsstring) list) option" where
  "match_at r i s =
     (case ms r \<lparr>pos = i, rest = s, caps = []\<rparr> of
        [] \<Rightarrow> None
      | st # _ \<Rightarrow> Some (pos st - i, caps st))"

text \<open>\<open>RegExp.prototype.test\<close> of a regular expression without flags: is there a match
  starting at some index.\<close>

fun test_from :: "regex \<Rightarrow> nat \<Rightarrow> jsstring \<Rightarrow> bool" where
  "test_from r i [] = (match_at r i [] \<noteq> None)"
| "test_from r i (c # cs) = (match_at r i (c # cs) \<noteq> None \<or> test_from r (Suc i) cs)"

definition regex_test :: "regex \<Rightarrow> jsstring \<Rightarrow> bool" where
  "regex_test r s = test_from r 0 s"

section \<open>Percent-encoding\<close>

text \<open>
  \<open>encodeURIComponent\<close> and \<open>decodeURIComponent\<close> as ECMAScript defines them
  (the operations Encode and Decode). Bytes and code points are natural numbers.
  Both throw a URIError, which is the result \<open>None\<close> here.
\<close>

definition is_high_surrogate :: "code_unit \<Rightarrow> bool" where
  "is_high_surrogate c = (0xD800 \<le> c \<and> c \<le> 0xDBFF)"

definition is_low_surrogate :: "code_unit \<Rightarrow> bool" where
  "is_low_surrogate c = (0xDC00 \<le> c \<and> c \<le> 0xDFFF)"

definition is_alnum :: "code_unit \<Rightarrow> bool" where
  "is_alnum c = ((0x30 \<le> c \<and> c \<le> 0x39) \<or> (0x41 \<le> c \<and> c \<le> 0x5A) \<or> (0x61 \<le> c \<and> c \<le> 0x7A))"

text \<open>The characters \<open>encodeURIComponent\<close> leaves as they are: letters, digits and
  \<open>- _ . ! ~ * ' ( )\<close>.\<close>

definition unescaped :: "code_unit \<Rightarrow> bool" where
  "unescaped c = (is_alnum c \<or> c \<in> set (lit ''-_.!~*()'') \<or> c = sq)"

definition hex_digit :: "nat \<Rightarrow> code_unit" where
  "hex_digit n = (if n < 10 then of_nat (0x30 + n) else of_nat (0x41 + (n - 10)))"

definition percent :: code_unit where
  "percent = 0x25"

definition pct_byte :: "nat \<Rightarrow> jsstring" where
  "pct_byte b = [percent, hex_digit (b div 16), hex_digit (b mod 16)]"

text \<open>The UTF-8 encoding of a code point.\<close>

definition utf8_encode :: "nat \<Rightarrow> nat list" where
  "utf8_encode v =
     (if v < 0x80 then [v]
      else if v < 0x800 then [0xC0 + v div 64, 0x80 + v mod 64]
      else if v < 0x10000 then [0xE0 + v div 4096, 0x80 + v div 64 mod 64, 0x80 + v mod 64]
      else [0xF0 + v div 262144, 0x80 + v div 4096 mod 64, 0x80 + v div 64 mod 64, 0x80 + v mod 64])"

definition surrogate_pair_value :: "code_unit \<Rightarrow> code_unit \<Rightarrow> nat" where
  "surrogate_pair_value h l = (unat h - 0xD800) * 0x400 + (unat l - 0xDC00) + 0x10000"

fun encodeURIComponent :: "jsstring \<Rightarrow> jsstring option" where
  "encodeURIComponent [] = Some []"
| "encodeURIComponent (c # cs) =
     (if unescaped c then map_option ((#) c) (encodeURIComponent cs)
      else if is_high_surrogate c then
        (case cs of
           [] \<Rightarrow> None
         | d # ds \<Rightarrow>
             if is_low_surrogate d
             then map_option ((@) (concat (map pct_byte (utf8_encode (surrogate_pair_value c d)))))
                    (encodeURIComponent ds)
             else None)
      else if is_low_surrogate c then None
      else map_option ((@) (concat (map pct_byte (utf8_encode (unat c))))) (encodeURIComponent cs))"

definition hex_val :: "code_unit \<Rightarrow> nat option" where
  "hex_val c =
     (if 0x30 \<le> c \<and> c \<le> 0x39 then Some (unat c - 0x30)
      else if 0x41 \<le> c \<and> c \<le> 0x46 then Some (unat c - 0x41 + 10)
      else if 0x61 \<le> c \<and> c \<le> 0x66 then Some (unat c - 0x61 + 10)
      else None)"

text \<open>The byte that two hexadecimal digits at the head of the text denote.\<close>

fun hex_byte :: "jsstring \<Rightarrow> nat option" where
  "hex_byte (a # b # _) =
     (case hex_val a of None \<Rightarrow> None
      | Some x \<Rightarrow> (case hex_val b of None \<Rightarrow> None | Some y \<Rightarrow> Some (16 * x + y)))"
| "hex_byte _ = None"

text \<open>The number of leading one bits of a byte.\<close>

definition lead_ones :: "nat \<Rightarrow> nat" where
  "lead_ones b =
     (if b < 0x80 then 0 else if b < 0xC0 then 1 else if b < 0xE0 then 2
      else if b < 0xF0 then 3 else if b < 0xF8 then 4 else 5)"

text \<open>\<open>k\<close> further escapes \<open>%XX\<close> at the head of the text.\<close>

fun cont_bytes :: "nat \<Rightarrow> jsstring \<Rightarrow> nat list option" where
  "cont_bytes 0 s = Some []"
| "cont_bytes (Suc k) s =
     (case s of
        [] \<Rightarrow> None
      | c # cs \<Rightarrow>
          if c \<noteq> percent then None
          else (case hex_byte cs of None \<Rightarrow> None
                | Some b \<Rightarrow> map_option ((#) b) (cont_bytes k (drop 2 cs))))"

text \<open>
  The code point of a UTF-8 sequence of two to four bytes whose first byte has that many
  leading ones, if the sequence is well formed: continuation bytes in \<open>0x80..0xBF\<close>,
  no overlong form, no surrogate, at most \<open>0x10FFFF\<close>.
\<close>

definition utf8_value :: "nat list \<Rightarrow> nat option" where
  "utf8_value bs =
     (case bs of
        [] \<Rightarrow> None
      | b # cs \<Rightarrow>
          if \<not> list_all (\<lambda>c. 0x80 \<le> c \<and> c < 0xC0) cs then None
          else
            (let n = length bs;
                 v = foldl (\<lambda>a c. a * 64 + (c - 0x80)) (b - (if n = 2 then 0xC0 else if n = 3 then 0xE0 else 0xF0)) cs
             in if (n = 2 \<and> v < 0x80) \<or> (n = 3 \<and> v < 0x800) \<or> (n = 4 \<and> v < 0x10000)
                   \<or> (0xD800 \<le> v \<and> v \<le> 0xDFFF) \<or> 0x10FFFF < v
                then None else Some v))"

text \<open>The UTF-16 encoding of a code point.\<close>

definition utf16_encode :: "nat \<Rightarrow> jsstring" where
  "utf16_encode v =
     (if v < 0x10000 then [of_nat v]
      else [of_nat (0xD800 + (v - 0x10000) div 0x400), of_nat (0xDC00 + (v - 0x10000) mod 0x400)])"

function decodeURIComponent :: "jsstring \<Rightarrow> jsstring option" where
  "decodeURIComponent [] = Some []"
| "decodeURIComponent (c # cs) =
     (if c \<noteq> percent then map_option ((#) c) (decodeURIComponent cs)
      else
        (case hex_byte cs of
           None \<Rightarrow> None
         | Some b \<Rightarrow>
             if lead_ones b = 0 then map_option ((#) (of_nat b)) (decodeURIComponent (drop 2 cs))
             else if lead_ones b = 1 \<or> lead_ones b > 4 then None
             else
               (case cont_bytes (lead_ones b - 1) (drop 2 cs) of
                  None \<Rightarrow> None
                | Some bs \<Rightarrow>
                    (case utf8_value (b # bs) of
                       None \<Rightarrow> None
                     | Some v \<Rightarrow>
                         map_option ((@) (utf16_encode v))
                           (decodeURIComponent (drop (2 + 3 * (lead_ones b - 1)) cs))))))"
  by pat_completeness auto
termination
  by (relation "measure length") auto

section \<open>Replacement with a global regular expression\<close>

text \<open>
  The replacement template of \<open>String.prototype.replace\<close> (the operation
  GetSubstitution of ECMAScript, without named groups): \<open>$$\<close> is a dollar sign,
  \<open>$&\<close> the matched text, \<open>$`\<close> and \<open>$'\<close> the input before and after the
  match, \<open>$n\<close> and \<open>$nn\<close> the text of a capture group (empty when the group did
  not take part in the match); a reference to a group that the expression does not have
  stays as it is written.
\<close>

definition dollar :: code_unit where
  "dollar = 0x24"

definition is_digit :: "code_unit \<Rightarrow> bool" where
  "is_digit c = (0x30 \<le> c \<and> c \<le> 0x39)"

definition digit_val :: "code_unit \<Rightarrow> nat" where
  "digit_val c = unat c - 0x30"

definition capture :: "(nat \<times> jsstring) list \<Rightarrow> nat \<Rightarrow> jsstring" where
  "capture cs i = (case map_of cs i of None \<Rightarrow> [] | Some t \<Rightarrow> t)"

fun subst :: "nat \<Rightarrow> (nat \<times> jsstring) list \<Rightarrow> jsstring \<Rightarrow> jsstring \<Rightarrow> jsstring \<Rightarrow> jsstring \<Rightarrow> jsstring" where
  "subst m cs matched pre post [] = []"
| "subst m cs matched pre post [c] = [c]"
| "subst m cs matched pre post (c # d # t) =
     (if c \<noteq> dollar then c # subst m cs matched pre post (d # t)
      else if d = dollar then dollar # subst m cs matched pre post t
      else if d = 0x26 then matched @ subst m cs matched pre post t
      else if d = 0x60 then pre @ subst m cs matched pre post t
      else if d = 0x27 then post @ subst m cs matched pre post t
      else if is_digit d then
        (case t of
           e # t' \<Rightarrow>
             if is_digit e \<and> 10 * digit_val d + digit_val e \<le> m then
               (if 1 \<le> 10 * digit_val d + digit_val e
                then capture cs (10 * digit_val d + digit_val e) @ subst m cs matched pre post t'
                else dollar # d # e # subst m cs matched pre post t')
             else if 1 \<le> digit_val d \<and> digit_val d \<le> m
             then capture cs (digit_val d) @ subst m cs matched pre post t
             else dollar # d # subst m cs matched pre post t
         | [] \<Rightarrow>
             if 1 \<le> digit_val d \<and> digit_val d \<le> m
             then capture cs (digit_val d)
             else [dollar, d])
      else dollar # subst m cs matched pre post (d # t))"

text \<open>
  \<open>s.replace(r, template)\<close> for a regular expression with the flag \<open>g\<close>: the input is
  scanned from the left; at each index the expression is tried, a match is replaced by
  the expanded template and the scan goes on behind it (one code unit further when the
  match is empty). \<open>pre\<close> is the input already scanned.
\<close>

function replace_from :: "regex \<Rightarrow> jsstring \<Rightarrow> jsstring \<Rightarrow> jsstring \<Rightarrow> jsstring" where
  "replace_from r t pre s =
     (case match_at r (length pre) s of
        None \<Rightarrow> (case s of [] \<Rightarrow> [] | c # cs \<Rightarrow> c # replace_from r t (pre @ [c]) cs)
      | Some (n, cs') \<Rightarrow>
          subst (ngroups r) cs' (take n s) pre (drop n s) t @
          (if n = 0 \<or> s = []
           then (case s of [] \<Rightarrow> [] | c # cs \<Rightarrow> c # replace_from r t (pre @ [c]) cs)
           else replace_from r t (pre @ take n s) (drop n s)))"
  by pat_completeness auto
termination
  by (relation "measure (\<lambda>(r, t, pre, s). length s)") auto

definition replace_all :: "regex \<Rightarrow> jsstring \<Rightarrow> jsstring \<Rightarrow> jsstring" where
  "replace_all r t s = replace_from r t [] s"

section \<open>The regular expressions of the source\<close>

text \<open>\<open>/^\\/https?%3A%2F%2F|^\\/https?:\\//\<close>\<close>

definition path_regex :: regex where
  "path_regex =
     Alt (seqs [Bol, str ''/http'', Opt (Chr (cu CHR ''s'')), str ''%3A%2F%2F''])
         (seqs [Bol, str ''/http'', Opt (Chr (cu CHR ''s'')), str '':/''])"

text \<open>\<open>new RegExp(`(href|src)="(https?://.*?)`, 'g')\<close>\<close>

definition abs_regex :: regex where
  "abs_regex =
     seqs [Group 1 (Alt (str ''href'') (str ''src'')), str ''='', Chr dq,
           Group 2 (seqs [str ''http'', Opt (Chr (cu CHR ''s'')), str ''://'', LazyStar Dot])]"

text \<open>\<open>new RegExp('((href|src|action)=["\\'])/(?!/)', 'g')\<close>\<close>

definition rel_regex :: regex where
  "rel_regex =
     seqs [Group 1 (seqs [Group 2 (Alt (str ''href'') (Alt (str ''src'') (str ''action''))),
                          str ''='', OneOf [dq, sq]]),
           str ''/'', NotAhead (str ''/'')]"

text \<open>
  \<open>replaceRelativePaths\<close>: the template is built from the arguments, so a \<open>$\<close> in one
  of them is read as part of the template.
\<close>

definition replaceRelativePaths :: "jsstring \<Rightarrow> jsstring \<Rightarrow> jsstring \<Rightarrow> jsstring \<Rightarrow> jsstring" where
  "replaceRelativePaths text protocol host origin =
     replace_all rel_regex
       (lit ''$1'' @ protocol @ lit ''//'' @ host @ lit ''/'' @ origin @ lit ''/'') text"

text \<open>The rewriting of absolute links in \<open>handleHtmlContent\<close>.\<close>

definition rewriteAbsolute :: "jsstring \<Rightarrow> jsstring \<Rightarrow> jsstring \<Rightarrow> jsstring" where
  "rewriteAbsolute text protocol host =
     replace_all abs_regex
       (lit ''$1='' @ [dq] @ protocol @ lit ''//'' @ host @ lit ''/$2'') text"

section \<open>Headers, requests and responses\<close>

text \<open>
  A \<open>Headers\<close> object is its list of headers, names in lower case (the platform
  lower-cases a name when it stores it). Values are stored as they are given: the values
  the source stores are literals, percent-encoded text and components of parsed URLs.
\<close>

type_synonym headers = "(jsstring \<times> jsstring) list"

definition lower_cu :: "code_unit \<Rightarrow> code_unit" where
  "lower_cu c = (if 0x41 \<le> c \<and> c \<le> 0x5A then c + 0x20 else c)"

definition lower :: "jsstring \<Rightarrow> jsstring" where
  "lower s = map lower_cu s"

definition values_of :: "headers \<Rightarrow> jsstring \<Rightarrow> jsstring list" where
  "values_of hs n = map snd (filter (\<lambda>h. fst h = n) hs)"

fun join :: "jsstring \<Rightarrow> jsstring list \<Rightarrow> jsstring" where
  "join sep [] = []"
| "join sep [v] = v"
| "join sep (v # vs) = v @ sep @ join sep vs"

text \<open>\<open>Headers.prototype.get\<close>: the values of the name, combined; \<open>null\<close> is \<open>None\<close>.\<close>

definition hget :: "headers \<Rightarrow> jsstring \<Rightarrow> jsstring option" where
  "hget hs n =
     (case values_of hs (lower n) of [] \<Rightarrow> None | v # vs \<Rightarrow> Some (join (lit '', '') (v # vs)))"

text \<open>\<open>Headers.prototype.set\<close>: the first header of the name takes the value, the others
  of the name are removed; a new name is appended.\<close>

fun set_header :: "headers \<Rightarrow> jsstring \<Rightarrow> jsstring \<Rightarrow> headers" where
  "set_header [] n v = [(n, v)]"
| "set_header (h # hs) n v =
     (if fst h = n then (n, v) # filter (\<lambda>k. fst k \<noteq> n) hs else h # set_header hs n v)"

definition hset :: "headers \<Rightarrow> jsstring \<Rightarrow> jsstring \<Rightarrow> headers" where
  "hset hs n v = set_header hs (lower n) v"

text \<open>
  Iterating a \<open>Headers\<close> object (\<open>[...headers]\<close>, or passing it where headers are
  initialised): the names sorted, the values of one name combined, \<open>set-cookie\<close>
  headers kept apart.
\<close>

definition entries :: "headers \<Rightarrow> headers" where
  "entries hs =
     concat (map (\<lambda>n. if n = lit ''set-cookie'' then map (Pair n) (values_of hs n)
                        else [(n, join (lit '', '') (values_of hs n))])
                 (sort (remdups (map fst hs))))"

text \<open>\<open>new Headers(init)\<close> for a list of pairs or an object literal: each pair is
  appended under its lower-cased name.\<close>

definition new_Headers :: "(jsstring \<times> jsstring) list \<Rightarrow> headers" where
  "new_Headers init = map (\<lambda>h. (lower (fst h), snd h)) init"

text \<open>
  \<open>{...headers}\<close>: spreading copies the own enumerable properties of an object. A
  \<open>Headers\<close> object keeps its headers in an internal list that is reached through
  its methods (\<open>get\<close>, \<open>entries\<close>, the iterator), which are properties of the
  prototype; the object has no own enumerable property, so the spread contributes
  nothing, whatever the headers are.
\<close>

definition spread_Headers :: "headers \<Rightarrow> (jsstring \<times> jsstring) list" where
  "spread_Headers hs = []"

text \<open>
  A body is \<open>null\<close>, a stream, or a string. A stream delivers its bytes and then
  ends or fails with an error message.
\<close>

type_synonym byte = "8 word"

datatype body_init = NullBody | StreamBody "byte list" "jsstring option" | TextBody jsstring

datatype error =
    InvalidURL jsstring
  | MalformedURI
  | BodyNotAllowed jsstring
  | StatusOutOfRange nat
  | NullBodyStatus nat
  | FetchError jsstring
  | StreamError jsstring

record message =
  headers :: headers
  body :: body_init

record request = message +
  url :: jsstring
  req_method :: jsstring

datatype redirect_mode = Follow | Manual

record out_request = request +
  redirect :: redirect_mode

record response = message +
  status :: nat
  statusText :: jsstring

record url_rec =
  href :: jsstring
  origin :: jsstring
  protocol :: jsstring
  host :: jsstring
  pathname :: jsstring
  search :: jsstring

text \<open>
  What the platform provides and the repository does not contain: the URL parser
  (\<open>new URL\<close>, \<open>None\<close> when it throws), the network (\<open>fetch\<close> of the request that
  is dispatched; a response with a null-body status comes with the body \<open>null\<close>), the
  two text decoders, the message of each error, the reason phrase that a response gets
  for its status when it is constructed without a status text, and the imported file
  \<open>default.html\<close>.
\<close>

record platform =
  urlParse :: "jsstring \<Rightarrow> url_rec option"
  fetch :: "out_request \<Rightarrow> error + response"
  decodeUtf8 :: "byte list \<Rightarrow> jsstring"
  decodeGb2312 :: "byte list \<Rightarrow> jsstring"
  errorMessage :: "error \<Rightarrow> jsstring"
  reasonPhrase :: "nat \<Rightarrow> jsstring"
  defaultHtml :: jsstring

text \<open>
  \<open>new Response(body, {status, statusText, headers})\<close> on the runtime the handler is
  written for (Cloudflare Workers). The status text is optional: without it the response
  gets the reason phrase of its status. A status outside 200..599 is a RangeError. With
  a null-body status (101, 204, 205, 304) a body that is known to be empty (the empty
  string) is dropped and every other body is a TypeError. A string body without a content
  type gets \<open>text/plain;charset=UTF-8\<close>.
\<close>

definition null_body_status :: "nat \<Rightarrow> bool" where
  "null_body_status st = (st \<in> {101, 204, 205, 304})"

definition new_Response :: "platform \<Rightarrow> body_init \<Rightarrow> nat \<Rightarrow> jsstring option \<Rightarrow> headers
    \<Rightarrow> error + response" where
  "new_Response p b st stt hs =
     (if st < 200 \<or> 599 < st then Inl (StatusOutOfRange st)
      else if null_body_status st \<and> b \<noteq> NullBody \<and> b \<noteq> TextBody [] then Inl (NullBodyStatus st)
      else Inr \<lparr>headers =
                   (case (if null_body_status st then NullBody else b) of
                      TextBody t \<Rightarrow>
                        if hget hs (lit ''Content-Type'') = None
                        then hs @ [(lit ''content-type'', lit ''text/plain;charset=UTF-8'')]
                        else hs
                    | _ \<Rightarrow> hs),
                body = (if null_body_status st then NullBody else b),
                status = st,
                statusText = (case stt of None \<Rightarrow> reasonPhrase p st | Some t \<Rightarrow> t)\<rparr>)"

text \<open>
  \<open>new Request(input, {headers, method, body, redirect})\<close> (the field \<open>method\<close> is \<open>req_method\<close> here) for a string input: a
  TypeError when the input does not parse as a URL or when a GET or HEAD request is given
  a body.
\<close>

definition new_Request :: "platform \<Rightarrow> jsstring \<Rightarrow> headers \<Rightarrow> jsstring \<Rightarrow> body_init \<Rightarrow> redirect_mode
    \<Rightarrow> error + out_request" where
  "new_Request p input hs m b rd =
     (case urlParse p input of
        None \<Rightarrow> Inl (InvalidURL input)
      | Some u \<Rightarrow>
          if b \<noteq> NullBody \<and> (m = lit ''GET'' \<or> m = lit ''HEAD'') then Inl (BodyNotAllowed m)
          else Inr \<lparr>headers = hs, body = b, url = href u, req_method = m, redirect = rd\<rparr>)"

text \<open>
  \<open>fetch(request, {headers})\<close>: the request that is dispatched is
  \<open>new Request(request, {headers})\<close>, the given request with the members of the second
  argument applied. When the second argument has a \<open>headers\<close> member, the header list
  of the new request is emptied and filled from that member, so the member replaces the
  headers of the given request.
\<close>

definition dispatched :: "out_request \<Rightarrow> headers \<Rightarrow> out_request" where
  "dispatched rq init_headers = rq\<lparr>headers := entries init_headers\<rparr>"

text \<open>The bytes of a string body: its UTF-8 encoding, a lone surrogate encoded as
  U+FFFD.\<close>

fun utf8_bytes :: "jsstring \<Rightarrow> byte list" where
  "utf8_bytes [] = []"
| "utf8_bytes (c # cs) =
     (if is_high_surrogate c then
        (case cs of
           [] \<Rightarrow> map of_nat (utf8_encode 0xFFFD)
         | d # ds \<Rightarrow>
             if is_low_surrogate d
             then map of_nat (utf8_encode (surrogate_pair_value c d)) @ utf8_bytes ds
             else map of_nat (utf8_encode 0xFFFD) @ utf8_bytes cs)
      else if is_low_surrogate c then map of_nat (utf8_encode 0xFFFD) @ utf8_bytes cs
      else map of_nat (utf8_encode (unat c)) @ utf8_bytes cs)"

text \<open>\<open>response.arrayBuffer()\<close>\<close>

fun arrayBuffer :: "body_init \<Rightarrow> error + byte list" where
  "arrayBuffer NullBody = Inr []"
| "arrayBuffer (StreamBody bs None) = Inr bs"
| "arrayBuffer (StreamBody bs (Some e)) = Inl (StreamError e)"
| "arrayBuffer (TextBody t) = Inr (utf8_bytes t)"

section \<open>JSON\<close>

text \<open>
  \<open>JSON.stringify\<close> of a string: quotes, the backslash and control characters are
  escaped, a lone surrogate is written as a Unicode escape, everything else is copied.
\<close>

definition backslash :: code_unit where
  "backslash = 0x5C"

definition hex_lower :: "nat \<Rightarrow> code_unit" where
  "hex_lower n = (if n < 10 then of_nat (0x30 + n) else of_nat (0x61 + (n - 10)))"

definition unicode_escape :: "code_unit \<Rightarrow> jsstring" where
  "unicode_escape c =
     backslash # lit ''u'' @ [hex_lower (unat c div 4096), hex_lower (unat c div 256 mod 16),
                    hex_lower (unat c div 16 mod 16), hex_lower (unat c mod 16)]"

fun quote_chars :: "jsstring \<Rightarrow> jsstring" where
  "quote_chars [] = []"
| "quote_chars (c # cs) =
     (if c = 0x08 then backslash # lit ''b'' @ quote_chars cs
      else if c = 0x09 then backslash # lit ''t'' @ quote_chars cs
      else if c = 0x0A then backslash # lit ''n'' @ quote_chars cs
      else if c = 0x0C then backslash # lit ''f'' @ quote_chars cs
      else if c = 0x0D then backslash # lit ''r'' @ quote_chars cs
      else if c = dq then backslash # dq # quote_chars cs
      else if c = backslash then backslash # backslash # quote_chars cs
      else if c < 0x20 then unicode_escape c @ quote_chars cs
      else if is_high_surrogate c then
        (case cs of
           [] \<Rightarrow> unicode_escape c
         | d # ds \<Rightarrow>
             if is_low_surrogate d then c # d # quote_chars ds
             else unicode_escape c @ quote_chars cs)
      else if is_low_surrogate c then unicode_escape c @ quote_chars cs
      else c # quote_chars cs)"

definition QuoteJSONString :: "jsstring \<Rightarrow> jsstring" where
  "QuoteJSONString s = [dq] @ quote_chars s @ [dq]"

text \<open>\<open>JSON.stringify\<close> of an object whose properties are strings.\<close>

definition JSON_stringify :: "(jsstring \<times> jsstring) list \<Rightarrow> jsstring" where
  "JSON_stringify obj =
     lit ''{'' @ join (lit '','') (map (\<lambda>kv. QuoteJSONString (fst kv) @ lit '':'' @ QuoteJSONString (snd kv)) obj)
     @ lit ''}''"

section \<open>The handler\<close>

text \<open>\<open>ensureProtocol\<close>\<close>

definition ensureProtocol :: "jsstring \<Rightarrow> jsstring \<Rightarrow> jsstring" where
  "ensureProtocol u defaultProtocol =
     (if startsWith u (lit ''http://'') \<or> startsWith u (lit ''https://'') then u
      else defaultProtocol @ lit ''//'' @ u)"

text \<open>\<open>filterHeaders\<close>\<close>

definition filterHeaders :: "headers \<Rightarrow> (jsstring \<Rightarrow> bool) \<Rightarrow> headers" where
  "filterHeaders hs filterFunc = new_Headers (filter (\<lambda>h. filterFunc (fst h)) (entries hs))"

text \<open>\<open>setNoCacheHeaders\<close> and \<open>setCorsHeaders\<close>\<close>

definition setNoCacheHeaders :: "headers \<Rightarrow> headers" where
  "setNoCacheHeaders hs = hset hs (lit ''Cache-Control'') (lit ''no-store'')"

definition setCorsHeaders :: "headers \<Rightarrow> headers" where
  "setCorsHeaders hs =
     hset (hset (hset hs (lit ''Access-Control-Allow-Origin'') (lit ''*''))
                (lit ''Access-Control-Allow-Methods'') (lit ''GET, POST, PUT, DELETE''))
          (lit ''Access-Control-Allow-Headers'') (lit ''*'')"

text \<open>\<open>jsonResponse\<close>\<close>

definition jsonResponse :: "platform \<Rightarrow> (jsstring \<times> jsstring) list \<Rightarrow> nat \<Rightarrow> error + response" where
  "jsonResponse p data st =
     new_Response p (TextBody (JSON_stringify data)) st None
       (new_Headers [(lit ''Content-Type'', lit ''application/json; charset=utf-8'')])"

text \<open>
  \<open>handleRedirect\<close>: \<open>new URL(response.headers.get('location') || '')\<close> throws when
  the header is missing or does not parse.
\<close>

definition handleRedirect :: "platform \<Rightarrow> response \<Rightarrow> body_init \<Rightarrow> error + response" where
  "handleRedirect p resp b =
     (let l = (case hget (headers resp) (lit ''location'') of
                 None \<Rightarrow> []
               | Some v \<Rightarrow> if v = [] then [] else v)
      in case urlParse p l of
           None \<Rightarrow> Inl (InvalidURL l)
         | Some location \<Rightarrow>
             (case encodeURIComponent (href location) of
                None \<Rightarrow> Inl MalformedURI
              | Some enc \<Rightarrow>
                  new_Response p b (status resp) (Some (statusText resp))
                    (new_Headers (spread_Headers (headers resp) @ [(lit ''Location'', lit ''/'' @ enc)]))))"

text \<open>\<open>handleHtmlContent\<close>\<close>

definition handleHtmlContent :: "platform \<Rightarrow> response \<Rightarrow> jsstring \<Rightarrow> jsstring \<Rightarrow> jsstring \<Rightarrow> error + jsstring" where
  "handleHtmlContent p resp protocol' host' actualUrlStr =
     (case arrayBuffer (body resp) of
        Inl e \<Rightarrow> Inl e
      | Inr buf \<Rightarrow>
          (let res = decodeUtf8 p buf;
               res = (if includes_str res (lit ''charset=gb2312'')
                      then replace_str (decodeGb2312 p buf) (lit ''charset=gb2312'') (lit ''charset=utf-8'')
                      else res);
               res = rewriteAbsolute res protocol' host'
           in case urlParse p actualUrlStr of
                None \<Rightarrow> Inl (InvalidURL actualUrlStr)
              | Some u \<Rightarrow> Inr (replaceRelativePaths res protocol' host' (origin u))))"

text \<open>
  The value of \<open>res\<close> in \<open>handleHtmlContent\<close> when the rewriting of the links
  begins: the UTF-8 decoding of the body or, when that contains \<open>charset=gb2312\<close>,
  the GB2312 decoding with its first marker replaced.
\<close>

definition decoded_text :: "platform \<Rightarrow> byte list \<Rightarrow> jsstring" where
  "decoded_text p buf =
     (let res = decodeUtf8 p buf
      in if includes_str res (lit ''charset=gb2312'')
         then replace_str (decodeGb2312 p buf) (lit ''charset=gb2312'') (lit ''charset=utf-8'')
         else res)"

text \<open>The statuses that \<open>handleRequest\<close> treats as redirects.\<close>

definition redirect_statuses :: "nat list" where
  "redirect_statuses = [301, 302, 303, 307, 308]"

text \<open>
  The stages of the \<open>try\<close> block of \<open>handleRequest\<close>, named after the
  variables of the source; \<open>Inl\<close> is a thrown error. First \<open>actualUrlStr\<close>, the
  target taken from the path (a URIError when the path is not a well-formed
  percent-encoding).
\<close>

definition actualUrlStr :: "url_rec \<Rightarrow> error + jsstring" where
  "actualUrlStr u =
     (case decodeURIComponent (replace_str (pathname u) (lit ''/'') []) of
        None \<Rightarrow> Inl MalformedURI
      | Some decoded \<Rightarrow> Inr (ensureProtocol decoded (protocol u) @ search u))"

text \<open>\<open>modifiedRequest\<close>, the request constructed for the target.\<close>

definition modifiedRequest :: "platform \<Rightarrow> request \<Rightarrow> jsstring \<Rightarrow> error + out_request" where
  "modifiedRequest p rq target =
     new_Request p target
       (filterHeaders (headers rq) (\<lambda>name. \<not> startsWith name (lit ''cf-'')))
       (req_method rq) (body rq) Manual"

text \<open>The request that \<open>fetch(modifiedRequest, {headers: request.headers})\<close>
  dispatches.\<close>

definition fetched_request :: "platform \<Rightarrow> request \<Rightarrow> jsstring \<Rightarrow> error + out_request" where
  "fetched_request p rq target =
     map_sum id (\<lambda>mr. dispatched mr (headers rq)) (modifiedRequest p rq target)"

text \<open>\<open>response\<close>, the result of the fetch.\<close>

definition fetched_response :: "platform \<Rightarrow> request \<Rightarrow> jsstring \<Rightarrow> error + response" where
  "fetched_response p rq target =
     (case fetched_request p rq target of Inl e \<Rightarrow> Inl e | Inr r \<Rightarrow> fetch p r)"

text \<open>\<open>modifiedResponse\<close>: what is made of a response that is not a redirect.\<close>

definition modifiedResponse :: "platform \<Rightarrow> url_rec \<Rightarrow> jsstring \<Rightarrow> response \<Rightarrow> error + response" where
  "modifiedResponse p u target resp =
     (case (if (case hget (headers resp) (lit ''Content-Type'') of
                  None \<Rightarrow> False
                | Some ct \<Rightarrow> includes_str ct (lit ''text/html''))
            then map_sum id TextBody (handleHtmlContent p resp (protocol u) (host u) target)
            else Inr (body resp)) of
        Inl e \<Rightarrow> Inl e
      | Inr b \<Rightarrow>
          (case new_Response p b (status resp) (Some (statusText resp)) (entries (headers resp)) of
             Inl e \<Rightarrow> Inl e
           | Inr r \<Rightarrow> Inr (r\<lparr>headers := setCorsHeaders (setNoCacheHeaders (headers r))\<rparr>)))"

text \<open>The body of the \<open>try\<close> block.\<close>

definition try_block :: "platform \<Rightarrow> request \<Rightarrow> error + response" where
  "try_block p rq =
     (case urlParse p (url rq) of
        None \<Rightarrow> Inl (InvalidURL (url rq))
      | Some u \<Rightarrow>
          if pathname u = lit ''/'' then
            new_Response p (TextBody (defaultHtml p)) 200 None
              (new_Headers [(lit ''Content-Type'', lit ''text/html; charset=utf-8'')])
          else if \<not> regex_test path_regex (pathname u) then
            new_Response p NullBody 302 None
              (new_Headers [(lit ''Location'',
                 protocol u @ lit ''//'' @ host u @ lit ''/https://www.bing.com/search?q=''
                   @ slice1 (pathname u))])
          else
            (case actualUrlStr u of
               Inl e \<Rightarrow> Inl e
             | Inr target \<Rightarrow>
                 (case fetched_response p rq target of
                    Inl e \<Rightarrow> Inl e
                  | Inr resp \<Rightarrow>
                      if status resp \<in> set redirect_statuses
                      then handleRedirect p resp (body resp)
                      else modifiedResponse p u target resp)))"

text \<open>
  \<open>handleRequest\<close>: an error thrown in the \<open>try\<close> block is answered by
  \<open>jsonResponse\<close>. \<open>Inl\<close> would be an error that leaves the handler.
\<close>

definition handleRequest :: "platform \<Rightarrow> request \<Rightarrow> error + response" where
  "handleRequest p rq =
     (case try_block p rq of
        Inr resp \<Rightarrow> Inr resp
      | Inl e \<Rightarrow> jsonResponse p [(lit ''error'', errorMessage p e)] 500)"

section \<open>A platform for the examples\<close>

text \<open>
  The examples below run the handler on concrete requests. They need the results of the
  platform on the inputs that occur: what the URL parser returns for the URLs of the
  examples, two origin servers, and text decoders for ASCII bytes (on which the UTF-8
  and the GB2312 decoder agree: each byte below \<open>0x80\<close> is the character of that
  code; the other bytes do not occur in the examples).
\<close>

definition http_url :: "string \<Rightarrow> string \<Rightarrow> string \<Rightarrow> string \<Rightarrow> url_rec" where
  "http_url scheme h path q =
     \<lparr>href = lit (scheme @ ''//'' @ h @ path @ q), origin = lit (scheme @ ''//'' @ h),
      protocol = lit scheme, host = lit h, pathname = lit path, search = lit q\<rparr>"

text \<open>The URLs of the examples and what the parser makes of them. A URL without a path
  has the path \<open>/\<close>, which its serialisation shows.\<close>

definition example_urls :: "(jsstring \<times> url_rec) list" where
  "example_urls =
     [(lit ''https://proxy.example/'', http_url ''https:'' ''proxy.example'' ''/'' []),
      (lit ''https://proxy.example/https://example.com/'',
         http_url ''https:'' ''proxy.example'' ''/https://example.com/'' []),
      (lit ''https://proxy.example/https://example.com/old'',
         http_url ''https:'' ''proxy.example'' ''/https://example.com/old'' []),
      (lit ''https://proxy.example/https://example.com/data'',
         http_url ''https:'' ''proxy.example'' ''/https://example.com/data'' []),
      (lit ''https://proxy.example/https%3A%2F%2Fexample.com'',
         http_url ''https:'' ''proxy.example'' ''/https%3A%2F%2Fexample.com'' []),
      (lit ''https://proxy.example/https://unreachable.example/'',
         http_url ''https:'' ''proxy.example'' ''/https://unreachable.example/'' []),
      (lit ''https://proxy.example/https://example.com/cached'',
         http_url ''https:'' ''proxy.example'' ''/https://example.com/cached'' []),
      (lit ''https://proxy.example/https://example.com/feed'',
         http_url ''https:'' ''proxy.example'' ''/https://example.com/feed'' []),
      (lit ''https://proxy.example/hello'', http_url ''https:'' ''proxy.example'' ''/hello'' []),
      (lit ''https://example.com'', http_url ''https:'' ''example.com'' ''/'' []),
      (lit ''https://example.com/'', http_url ''https:'' ''example.com'' ''/'' []),
      (lit ''https://example.com/old'', http_url ''https:'' ''example.com'' ''/old'' []),
      (lit ''https://example.com/bar'', http_url ''https:'' ''example.com'' ''/bar'' []),
      (lit ''https://example.com/data'', http_url ''https:'' ''example.com'' ''/data'' []),
      (lit ''https://example.com/cached'', http_url ''https:'' ''example.com'' ''/cached'' []),
      (lit ''https://example.com/feed'', http_url ''https:'' ''example.com'' ''/feed'' []),
      (lit ''https://unreachable.example/'', http_url ''https:'' ''unreachable.example'' ''/'' [])]"

definition ascii_bytes :: "string \<Rightarrow> byte list" where
  "ascii_bytes s = map of_char s"

definition decode_ascii :: "byte list \<Rightarrow> jsstring" where
  "decode_ascii bs = map (\<lambda>b. if b < 0x80 then ucast b else 0xFFFD) bs"

text \<open>
  The origin \<open>example.com\<close> serves an HTML page at \<open>/\<close>, a redirect with a cookie at
  \<open>/old\<close>, a JSON document at \<open>/data\<close>, an HTML page that has not been modified
  (304, without a body) at \<open>/cached\<close>, and at \<open>/feed\<close> a JSON document whose
  transfer breaks off after the first bytes; no other host can be reached.
\<close>

definition example_fetch :: "out_request \<Rightarrow> error + response" where
  "example_fetch rq =
     (if url rq = lit ''https://example.com/'' then
        Inr \<lparr>headers = [(lit ''content-type'', lit ''text/html; charset=utf-8'')],
             body = StreamBody (ascii_bytes ''<a href=/>home</a>'') None,
             status = 200, statusText = lit ''OK''\<rparr>
      else if url rq = lit ''https://example.com/old'' then
        Inr \<lparr>headers = [(lit ''location'', lit ''https://example.com''),
                        (lit ''set-cookie'', lit ''sid=1'')],
             body = NullBody, status = 302, statusText = lit ''Found''\<rparr>
      else if url rq = lit ''https://example.com/data'' then
        Inr \<lparr>headers = [(lit ''content-type'', lit ''application/json'')],
             body = StreamBody (ascii_bytes ''{}'') None,
             status = 200, statusText = lit ''OK''\<rparr>
      else if url rq = lit ''https://example.com/cached'' then
        Inr \<lparr>headers = [(lit ''content-type'', lit ''text/html; charset=utf-8'')],
             body = NullBody, status = 304, statusText = lit ''Not Modified''\<rparr>
      else if url rq = lit ''https://example.com/feed'' then
        Inr \<lparr>headers = [(lit ''content-type'', lit ''application/json'')],
             body = StreamBody (ascii_bytes ''{\"items\":['') (Some (lit ''connection lost'')),
             status = 200, statusText = lit ''OK''\<rparr>
      else Inl (FetchError (lit ''no route to \"unreachable.example\"'')))"

text \<open>The reason phrases of the statuses that occur in the examples.\<close>

definition example_reason :: "nat \<Rightarrow> jsstring" where
  "example_reason st =
     (if st = 200 then lit ''OK''
      else if st = 302 then lit ''Found''
      else if st = 304 then lit ''Not Modified''
      else if st = 500 then lit ''Internal Server Error''
      else [])"

fun example_message :: "error \<Rightarrow> jsstring" where
  "example_message (InvalidURL s) = lit ''Invalid URL: '' @ s"
| "example_message MalformedURI = lit ''URI malformed''"
| "example_message (BodyNotAllowed m) = lit ''Request with a GET or HEAD method cannot have a body.''"
| "example_message (StatusOutOfRange n) = lit ''Responses may only be constructed with status codes in the range 200 to 599, inclusive.''"
| "example_message (NullBodyStatus n) = lit ''Response with null body status cannot have body''"
| "example_message (FetchError m) = m"
| "example_message (StreamError m) = m"

definition example_platform :: platform where
  "example_platform =
     \<lparr>urlParse = map_of example_urls, fetch = example_fetch,
      decodeUtf8 = decode_ascii, decodeGb2312 = decode_ascii,
      errorMessage = example_message, reasonPhrase = example_reason,
      defaultHtml = lit ''<h1>proxy</h1>''\<rparr>"

definition get_request :: "string \<Rightarrow> headers \<Rightarrow> request" where
  "get_request u hs = \<lparr>headers = hs, body = NullBody, url = lit u, req_method = lit ''GET''\<rparr>"

section \<open>Definitions that follow the specification\<close>










text \<open>The target pattern as the specification writes it in its testable properties:
  \<open>^/https?(:%2F%2F|://)\<close>.\<close>

definition spec_path_regex :: regex where
  "spec_path_regex =
     seqs [Bol, str ''/http'', Opt (Chr (cu CHR ''s'')), Alt (str '':%2F%2F'') (str ''://'')]"

text \<open>
  The two link rewritings as the specification describes them, position by position.
  \<open>endsWith\<close> is \<open>String.prototype.endsWith\<close>. An absolute URL starts at a
  position when \<open>href="\<close> or \<open>src="\<close> ends there and \<open>http://\<close> or \<open>https://\<close>
  begins there; the rewriting inserts the proxy prefix at each such position and copies
  every character. The arguments are the text before the part that is rewritten, the
  part itself, and the text behind it.
\<close>

definition endsWith :: "jsstring \<Rightarrow> jsstring \<Rightarrow> bool" where
  "endsWith s a = startsWith (rev s) (rev a)"

definition abs_attr_quotes :: "jsstring list" where
  "abs_attr_quotes = [lit ''href=\"'', lit ''src=\"'']"

definition abs_tail :: "jsstring \<Rightarrow> bool" where
  "abs_tail s = (startsWith s (lit ''http://'') \<or> startsWith s (lit ''https://''))"

definition abs_url_here :: "jsstring \<Rightarrow> jsstring \<Rightarrow> bool" where
  "abs_url_here pre s = (list_ex (endsWith pre) abs_attr_quotes \<and> abs_tail s)"

fun insert_before_urls :: "jsstring \<Rightarrow> jsstring \<Rightarrow> jsstring \<Rightarrow> jsstring \<Rightarrow> jsstring" where
  "insert_before_urls ins pre [] post = []"
| "insert_before_urls ins pre (c # cs) post =
     (if abs_url_here pre (c # cs @ post) then ins else []) @
     c # insert_before_urls ins (pre @ [c]) cs post"

text \<open>
  A root-relative path starts at a position when \<open>href=\<close>, \<open>src=\<close> or \<open>action=\<close>
  with a double or single quote ends there and a slash that is not followed by a second
  slash stands there; the rewriting puts the proxy prefix in the place of that slash and
  copies every other character.
\<close>

definition rel_attr_quotes :: "jsstring list" where
  "rel_attr_quotes =
     [lit ''href=\"'', lit ''href='' @ [sq], lit ''src=\"'', lit ''src='' @ [sq],
      lit ''action=\"'', lit ''action='' @ [sq]]"

definition rel_tail :: "jsstring \<Rightarrow> bool" where
  "rel_tail s = (startsWith s (lit ''/'') \<and> \<not> startsWith s (lit ''//''))"

definition rel_slash_here :: "jsstring \<Rightarrow> jsstring \<Rightarrow> bool" where
  "rel_slash_here pre s = (list_ex (endsWith pre) rel_attr_quotes \<and> rel_tail s)"

fun replace_slashes :: "jsstring \<Rightarrow> jsstring \<Rightarrow> jsstring \<Rightarrow> jsstring \<Rightarrow> jsstring" where
  "replace_slashes ins pre [] post = []"
| "replace_slashes ins pre (c # cs) post =
     (if rel_slash_here pre (c # cs @ post) then ins else [c]) @
     replace_slashes ins (pre @ [c]) cs post"

text \<open>
  For the proofs: a scan position lies inside a candidate when a proper part of one of
  the attribute prefixes ends there and the rest of the candidate follows.
\<close>

definition straddles :: "jsstring list \<Rightarrow> (jsstring \<Rightarrow> bool) \<Rightarrow> jsstring \<Rightarrow> jsstring \<Rightarrow> bool" where
  "straddles As T pre s =
     (\<exists>A\<in>set As. \<exists>k. 0 < k \<and> k \<le> length A \<and> endsWith pre (take k A)
         \<and> startsWith s (drop k A) \<and> T (drop (length A - k) s))"

text \<open>For the proofs: the attribute name, if any, at the head of a text.\<close>

definition link_attr :: "jsstring \<Rightarrow> string option" where
  "link_attr s =
     (if startsWith s (lit ''href'') then Some ''href''
      else if startsWith s (lit ''src'') then Some ''src''
      else if startsWith s (lit ''action'') then Some ''action''
      else None)"

section \<open>Auxiliary facts\<close>

subsection \<open>Strings and regular expressions\<close>

lemma startsWith_append: "startsWith s (a @ b) = (startsWith s a \<and> startsWith (drop (length a) s) b)"
  by (induction s a rule: startsWith.induct) auto

lemma lit_Cons: "lit (c # s) = cu c # lit s"
  by (simp add: lit_def)

lemma length_lit: "length (lit l) = length l"
  by (simp add: lit_def)

lemma ms_Eps_fun: "ms Eps = (\<lambda>st. [st])"
  by (rule ext) simp

lemma ms_seqs_Cons: "ms (seqs (r # rs)) st = concat (map (ms (seqs rs)) (ms r st))"
  by (cases rs) (simp_all add: ms_Eps_fun)

lemma ms_str: "ms (str l) st =
   (if startsWith (rest st) (lit l)
    then [st\<lparr>pos := pos st + length l, rest := drop (length l) (rest st)\<rparr>] else [])"
  unfolding str_def
proof (induction l arbitrary: st)
  case Nil
  then show ?case by (simp add: lit_def)
next
  case (Cons c l)
  show ?case
    by (cases "rest st") (simp_all add: ms_seqs_Cons Cons.IH lit_Cons del: seqs.simps)
qed

lemma ms_path_regex_later: "pos st \<noteq> 0 \<Longrightarrow> ms path_regex st = []"
  by (simp add: path_regex_def)

lemma test_from_later: "0 < i \<Longrightarrow> \<not> test_from path_regex i s"
  by (induction s arbitrary: i) (simp_all add: match_at_def ms_path_regex_later)

lemma ms_opt_then:
  "(concat (map (ms (str l)) (ms (Opt (Chr c)) st)) = []) =
     (\<not> startsWith (rest st) (c # lit l) \<and> \<not> startsWith (rest st) (lit l))"
  by (cases "rest st") (simp_all add: ms_str)

lemma ms_path_alternative:
  "(ms (seqs [Bol, str ''/http'', Opt (Chr c), str l]) \<lparr>pos = 0, rest = s, caps = []\<rparr> = []) =
     (\<not> startsWith s (lit ''/http'' @ c # lit l) \<and> \<not> startsWith s (lit ''/http'' @ lit l))"
proof (cases "startsWith s (lit ''/http'')")
  case True
  then have eq: "ms (seqs [Bol, str ''/http'', Opt (Chr c), str l]) \<lparr>pos = 0, rest = s, caps = []\<rparr>
      = concat (map (ms (str l))
          (ms (Opt (Chr c)) \<lparr>pos = length ''/http'', rest = drop (length ''/http'') s, caps = []\<rparr>))"
    by (simp add: ms_str)
  show ?thesis
    unfolding eq ms_opt_then using True by (simp add: startsWith_append length_lit)
next
  case False
  then show ?thesis
    by (simp add: ms_str startsWith_append)
qed

lemma match_at_path_regex:
  "(match_at path_regex 0 s \<noteq> None) =
     (startsWith s (lit ''/http%3A%2F%2F'') \<or> startsWith s (lit ''/https%3A%2F%2F'')
      \<or> startsWith s (lit ''/http:/'') \<or> startsWith s (lit ''/https:/''))"
proof -
  have a: "lit ''/http%3A%2F%2F'' = lit ''/http'' @ lit ''%3A%2F%2F''" 
    "lit ''/https%3A%2F%2F'' = lit ''/http'' @ cu CHR ''s'' # lit ''%3A%2F%2F''"
    "lit ''/http:/'' = lit ''/http'' @ lit '':/''"
    "lit ''/https:/'' = lit ''/http'' @ cu CHR ''s'' # lit '':/''"
    by (simp_all add: lit_def)
  have "(match_at path_regex 0 s \<noteq> None) = (ms path_regex \<lparr>pos = 0, rest = s, caps = []\<rparr> \<noteq> [])"
    by (simp add: match_at_def split: list.splits)
  also have "\<dots> = (ms (seqs [Bol, str ''/http'', Opt (Chr (cu CHR ''s'')), str ''%3A%2F%2F'']) \<lparr>pos = 0, rest = s, caps = []\<rparr> \<noteq> []
       \<or> ms (seqs [Bol, str ''/http'', Opt (Chr (cu CHR ''s'')), str '':/'']) \<lparr>pos = 0, rest = s, caps = []\<rparr> \<noteq> [])"
    unfolding path_regex_def by simp
  finally show ?thesis
    unfolding ms_path_alternative a by blast
qed

lemma regex_test_path_regex:
  "regex_test path_regex s =
     (startsWith s (lit ''/http%3A%2F%2F'') \<or> startsWith s (lit ''/https%3A%2F%2F'')
      \<or> startsWith s (lit ''/http:/'') \<or> startsWith s (lit ''/https:/''))"
proof -
  have "regex_test path_regex s = (match_at path_regex 0 s \<noteq> None)"
    unfolding regex_test_def by (cases s) (simp_all add: test_from_later)
  then show ?thesis
    by (simp only: match_at_path_regex)
qed

subsection \<open>Headers and responses\<close>

lemma lower_lit_content_type: "lower (lit ''Content-Type'') = lit ''content-type''"
  by code_simp

lemma values_of_set_header_same: "values_of (set_header hs n v) n = [v]"
  by (induction hs) (auto simp: values_of_def filter_empty_conv)

lemma values_of_set_header_other: "m \<noteq> n \<Longrightarrow> values_of (set_header hs n v) m = values_of hs m"
proof (induction hs)
  case Nil
  then show ?case by (simp add: values_of_def)
next
  case (Cons h hs)
  have "filter (\<lambda>k. fst k = m) (filter (\<lambda>k. fst k \<noteq> n) hs) = filter (\<lambda>k. fst k = m) hs"
    using Cons.prems by (induction hs) auto
  with Cons show ?case by (auto simp: values_of_def)
qed

lemma hget_hset_same: "hget (hset hs n v) n = Some v"
  by (simp add: hget_def hset_def values_of_set_header_same)

lemma hget_hset_other: "lower m \<noteq> lower n \<Longrightarrow> hget (hset hs n v) m = hget hs m"
  by (simp add: hget_def hset_def values_of_set_header_other)




lemma try_block_proxied:
  assumes "urlParse p (url rq) = Some u" "pathname u \<noteq> lit ''/''" "regex_test path_regex (pathname u)"
    "actualUrlStr u = Inr t"
  shows "try_block p rq =
     (case fetched_response p rq t of
        Inl e \<Rightarrow> Inl e
      | Inr resp \<Rightarrow> if status resp \<in> set redirect_statuses then handleRedirect p resp (body resp)
                    else modifiedResponse p u t resp)"
  using assms by (simp add: try_block_def)




lemma modifiedResponse_headers:
  assumes "modifiedResponse p u t resp = Inr r"
  shows "hget (headers r) (lit ''Cache-Control'') = Some (lit ''no-store'')
       \<and> hget (headers r) (lit ''Access-Control-Allow-Origin'') = Some (lit ''*'')"
proof -
  have ne1: "lower (lit ''Cache-Control'') \<noteq> lower (lit ''Access-Control-Allow-Origin'')" by code_simp
  have ne2: "lower (lit ''Cache-Control'') \<noteq> lower (lit ''Access-Control-Allow-Methods'')" by code_simp
  have ne3: "lower (lit ''Cache-Control'') \<noteq> lower (lit ''Access-Control-Allow-Headers'')" by code_simp
  have ne4: "lower (lit ''Access-Control-Allow-Origin'') \<noteq> lower (lit ''Access-Control-Allow-Methods'')" by code_simp
  have ne5: "lower (lit ''Access-Control-Allow-Origin'') \<noteq> lower (lit ''Access-Control-Allow-Headers'')" by code_simp
  from assms obtain r0 where r: "r = r0\<lparr>headers := setCorsHeaders (setNoCacheHeaders (headers r0))\<rparr>"
    by (auto simp: modifiedResponse_def split: sum.splits if_splits)
  show ?thesis
    unfolding r by (simp add: setCorsHeaders_def setNoCacheHeaders_def hget_hset_same hget_hset_other ne1 ne2 ne3 ne4 ne5)
qed

subsection \<open>Percent-encoding and decoding\<close>

lemma unat_of_nat16: "n < 65536 \<Longrightarrow> unat (of_nat n :: 16 word) = n"
  by (simp add: unat_of_nat)

lemma unat_hex_digit: "n < 16 \<Longrightarrow> unat (hex_digit n) = (if n < 10 then 48 + n else 55 + n)"
  by (simp add: hex_digit_def unat_of_nat16 del: of_nat_add of_nat_numeral)

lemma hex_val_hex_digit: "n < 16 \<Longrightarrow> hex_val (hex_digit n) = Some n"
  unfolding hex_val_def by (simp add: word_le_nat_alt unat_hex_digit)

lemma hex_byte_pct: "b < 256 \<Longrightarrow> hex_byte (hex_digit (b div 16) # hex_digit (b mod 16) # s) = Some b"
  by (simp add: hex_val_hex_digit)

lemma unescaped_not_percent: "unescaped c \<Longrightarrow> c \<noteq> percent"
  unfolding unescaped_def percent_def is_alnum_def sq_def lit_def cu_def
  by auto


lemma length_pct: "length (concat (map pct_byte bs)) = 3 * length bs"
  by (induction bs) (simp_all add: pct_byte_def)

lemma cont_bytes_pct:
  "\<forall>b\<in>set bs. b < 256 \<Longrightarrow> cont_bytes (length bs) (concat (map pct_byte bs) @ s) = Some bs"
  by (induction bs) (simp_all add: pct_byte_def hex_byte_pct del: hex_byte.simps)

lemma decode_pct_ascii:
  "b < 0x80 \<Longrightarrow> decodeURIComponent (pct_byte b @ s) = map_option ((#) (of_nat b)) (decodeURIComponent s)"
  by (simp add: pct_byte_def hex_val_hex_digit lead_ones_def)

lemma decode_pct_sequence:
  assumes "b0 < 256" and "\<forall>b\<in>set bs. b < 256"
    and "lead_ones b0 = Suc (length bs)" and "bs \<noteq> []" and "length bs \<le> 3"
    and "utf8_value (b0 # bs) = Some v"
  shows "decodeURIComponent (concat (map pct_byte (b0 # bs)) @ s)
       = map_option ((@) (utf16_encode v)) (decodeURIComponent s)"
proof -
  have hb: "hex_byte (hex_digit (b0 div 16) # hex_digit (b0 mod 16) # concat (map pct_byte bs) @ s) = Some b0"
    using assms(1) by (rule hex_byte_pct)
  have cb: "cont_bytes (length bs) (concat (map pct_byte bs) @ s) = Some bs"
    using assms(2) by (rule cont_bytes_pct)
  have dr: "drop (3 * length bs) (concat (map pct_byte bs) @ s) = s"
    by (simp add: length_pct)
  have "concat (map pct_byte (b0 # bs)) @ s
      = percent # hex_digit (b0 div 16) # hex_digit (b0 mod 16) # concat (map pct_byte bs) @ s"
    by (simp add: pct_byte_def)
  then show ?thesis
    using assms(3-6) by (simp add: hb cb length_pct del: hex_byte.simps)
qed

lemma utf8_two:
  assumes "0x80 \<le> v" and "v < 0x800"
  shows "decodeURIComponent (concat (map pct_byte (utf8_encode v)) @ s)
       = map_option ((@) (utf16_encode v)) (decodeURIComponent s)"
proof -
  have e: "utf8_encode v = [0xC0 + v div 64, 0x80 + v mod 64]"
    using assms by (simp add: utf8_encode_def)
  have "lead_ones (0xC0 + v div 64) = 2"
    using assms by (simp add: lead_ones_def)
  moreover have "utf8_value [0xC0 + v div 64, 0x80 + v mod 64] = Some v"
    using assms by (simp add: utf8_value_def Let_def)
  moreover have "0xC0 + v div 64 < 256" "0x80 + v mod 64 < 256"
    using assms by simp_all
  ultimately show ?thesis
    unfolding e by (intro decode_pct_sequence) simp_all
qed


lemma base64_three: "(v div 4096 * 64 + v div 64 mod 64) * 64 + v mod 64 = (v::nat)"
proof -
  have "v div 4096 = v div 64 div 64"
    by (simp add: div_mult2_eq[symmetric])
  then have "v div 4096 * 64 + v div 64 mod 64 = v div 64"
    by simp
  then show ?thesis
    by simp
qed

lemma base64_four:
  "((v div 262144 * 64 + v div 4096 mod 64) * 64 + v div 64 mod 64) * 64 + v mod 64 = (v::nat)"
proof -
  have "v div 262144 = v div 4096 div 64"
    by (simp add: div_mult2_eq[symmetric])
  then have "v div 262144 * 64 + v div 4096 mod 64 = v div 4096"
    by simp
  then show ?thesis
    using base64_three[of v] by simp
qed

lemma utf8_three:
  assumes "0x800 \<le> v" and "v < 0x10000" and "v < 0xD800 \<or> 0xDFFF < v"
  shows "decodeURIComponent (concat (map pct_byte (utf8_encode v)) @ s)
       = map_option ((@) (utf16_encode v)) (decodeURIComponent s)"
proof -
  have e: "utf8_encode v = [0xE0 + v div 4096, 0x80 + v div 64 mod 64, 0x80 + v mod 64]"
    using assms by (simp add: utf8_encode_def)
  have "lead_ones (0xE0 + v div 4096) = 3"
    using assms by (simp add: lead_ones_def)
  moreover have "(v div 4096 * 64 + v div 64 mod 64) * 64 + v mod 64 = v"
    by (rule base64_three)
  then have "utf8_value [0xE0 + v div 4096, 0x80 + v div 64 mod 64, 0x80 + v mod 64] = Some v"
    using assms by (auto simp add: utf8_value_def Let_def)
  moreover have "0xE0 + v div 4096 < 256" "0x80 + v div 64 mod 64 < 256" "0x80 + v mod 64 < 256"
    using assms by simp_all
  ultimately show ?thesis
    unfolding e by (intro decode_pct_sequence) simp_all
qed

lemma utf8_four:
  assumes "0x10000 \<le> v" and "v \<le> 0x10FFFF"
  shows "decodeURIComponent (concat (map pct_byte (utf8_encode v)) @ s)
       = map_option ((@) (utf16_encode v)) (decodeURIComponent s)"
proof -
  have e: "utf8_encode v = [0xF0 + v div 262144, 0x80 + v div 4096 mod 64,
                           0x80 + v div 64 mod 64, 0x80 + v mod 64]"
    using assms by (simp add: utf8_encode_def)
  have "lead_ones (0xF0 + v div 262144) = 4"
    using assms by (simp add: lead_ones_def)
  moreover have "((v div 262144 * 64 + v div 4096 mod 64) * 64 + v div 64 mod 64) * 64 + v mod 64 = v"
    by (rule base64_four)
  then have "utf8_value [0xF0 + v div 262144, 0x80 + v div 4096 mod 64,
                        0x80 + v div 64 mod 64, 0x80 + v mod 64] = Some v"
    using assms by (simp add: utf8_value_def Let_def)
  moreover have "0xF0 + v div 262144 < 256" "0x80 + v div 4096 mod 64 < 256"
      "0x80 + v div 64 mod 64 < 256" "0x80 + v mod 64 < 256"
    using assms by simp_all
  ultimately show ?thesis
    unfolding e by (intro decode_pct_sequence) simp_all
qed

lemma utf16_encode_unit: "utf16_encode (unat (c :: code_unit)) = [c]"
proof -
  have "unat c < 65536"
    using unsigned_less[of c, where 'a = nat] by simp
  then show ?thesis
    by (simp add: utf16_encode_def)
qed

lemma surrogate_pair:
  assumes "is_high_surrogate h" and "is_low_surrogate l"
  shows "0x10000 \<le> surrogate_pair_value h l" and "surrogate_pair_value h l \<le> 0x10FFFF"
    and "utf16_encode (surrogate_pair_value h l) = [h, l]"
proof -
  have h: "0xD800 \<le> unat h" "unat h \<le> 0xDBFF" and l: "0xDC00 \<le> unat l" "unat l \<le> 0xDFFF"
    using assms by (simp_all add: is_high_surrogate_def is_low_surrogate_def word_le_nat_alt)
  show "0x10000 \<le> surrogate_pair_value h l" and "surrogate_pair_value h l \<le> 0x10FFFF"
    using h l by (simp_all add: surrogate_pair_value_def)
  define a b where "a = unat h - 0xD800" and "b = unat l - 0xDC00"
  have b: "b < 0x400"
    using l by (simp add: b_def)
  have v: "surrogate_pair_value h l - 0x10000 = a * 0x400 + b"
    by (simp add: surrogate_pair_value_def a_def b_def)
  have "(surrogate_pair_value h l - 0x10000) div 0x400 = unat h - 0xD800"
    and "(surrogate_pair_value h l - 0x10000) mod 0x400 = unat l - 0xDC00"
    unfolding v using b by (simp_all add: a_def b_def)
  moreover have "\<not> surrogate_pair_value h l < 0x10000"
    using h l by (simp add: surrogate_pair_value_def)
  ultimately show "utf16_encode (surrogate_pair_value h l) = [h, l]"
    using h l by (simp add: utf16_encode_def)
qed

lemma decode_encoded_unit:
  assumes "\<not> is_high_surrogate c" and "\<not> is_low_surrogate c"
  shows "decodeURIComponent (concat (map pct_byte (utf8_encode (unat c))) @ s)
       = map_option ((#) c) (decodeURIComponent s)"
proof -
  have r: "unat c < 0xD800 \<or> 0xDFFF < unat c"
    using assms by (auto simp: is_high_surrogate_def is_low_surrogate_def word_le_nat_alt)
  have b: "unat c < 0x10000"
    using unsigned_less[of c, where 'a = nat] by simp
  have cons: "(@) [c] = (#) c"
    by (rule ext) simp
  have "decodeURIComponent (concat (map pct_byte (utf8_encode (unat c))) @ s)
       = map_option ((@) (utf16_encode (unat c))) (decodeURIComponent s)"
  proof (cases "unat c < 0x80")
    case True
    then show ?thesis
      using decode_pct_ascii[of "unat c" s]
      by (simp add: utf8_encode_def utf16_encode_unit cons)
  next
    case False
    then show ?thesis
      using utf8_two[of "unat c" s] utf8_three[of "unat c" s] r b
      by (cases "unat c < 0x800") simp_all
  qed
  then show ?thesis
    by (simp add: utf16_encode_unit cons)
qed

lemma decode_encode:
  "encodeURIComponent s = Some e \<Longrightarrow> decodeURIComponent e = Some s"
proof (induction s arbitrary: e rule: encodeURIComponent.induct)
  case 1
  then show ?case by simp
next
  case (2 c cs)
  show ?case
  proof (cases "unescaped c")
    case True
    with 2 show ?thesis
      by (auto simp: unescaped_not_percent)
  next
    case esc: False
    show ?thesis
    proof (cases "is_high_surrogate c")
      case True
      with esc 2(4) obtain d ds e' where cs: "cs = d # ds" and d: "is_low_surrogate d"
        and e': "encodeURIComponent ds = Some e'"
        and e: "e = concat (map pct_byte (utf8_encode (surrogate_pair_value c d))) @ e'"
        by (auto split: list.splits if_splits)
      from 2(2)[OF esc True cs d e'] have "decodeURIComponent e' = Some ds" .
      then show ?thesis
        unfolding e cs using utf8_four[OF surrogate_pair(1,2)[OF True d], of e'] surrogate_pair(3)[OF True d]
        by simp
    next
      case False
      with esc 2(4) obtain e' where l: "\<not> is_low_surrogate c"
        and e': "encodeURIComponent cs = Some e'"
        and e: "e = concat (map pct_byte (utf8_encode (unat c))) @ e'"
        by (auto split: if_splits)
      from 2(3)[OF esc False l e'] have "decodeURIComponent e' = Some cs" .
      then show ?thesis
        unfolding e using decode_encoded_unit[OF False l, of e'] by simp
    qed
  qed
qed

subsection \<open>The matches of the two link patterns\<close>

lemma unat_cu: "unat (cu c) = of_char c"
proof -
  have "(of_char c :: nat) < 65536"
    using nat_of_char_less_256[of c] by linarith
  then have "unat (of_nat (of_char c) :: 16 word) = of_char c"
    by (rule unat_of_nat16)
  then show ?thesis
    by (simp add: cu_def of_nat_of_char)
qed

lemma cu_eq_iff: "(cu c = cu d) = (c = d)"
proof
  assume "cu c = cu d"
  then have "unat (cu c) = unat (cu d)" by simp
  then show "c = d" by (simp add: unat_cu)
qed simp

lemma lit_Nil: "lit [] = []"
  by (simp add: lit_def)

lemma lazy_star_head: "\<exists>tl. lazy_star n f st = st # tl"
  by (cases n) simp_all

lemma startsWith_take: "startsWith s a \<Longrightarrow> take (length a) s = a"
  by (induction s a rule: startsWith.induct) auto

lemma ms_scheme_tail:
  "ms (seqs [Opt (Chr (cu CHR ''s'')), str ''://'', LazyStar Dot]) st =
     (if startsWith (rest st) (lit ''s://'')
      then lazy_star (length (rest st) - length ''s://'') (ms Dot)
             (st\<lparr>pos := pos st + length ''s://'', rest := drop (length ''s://'') (rest st)\<rparr>)
      else if startsWith (rest st) (lit ''://'')
      then lazy_star (length (rest st) - length ''://'') (ms Dot)
             (st\<lparr>pos := pos st + length ''://'', rest := drop (length ''://'') (rest st)\<rparr>)
      else [])"
proof (cases "rest st")
  case Nil
  then show ?thesis by (simp add: ms_str lit_Cons lit_Nil)
next
  case (Cons d ds)
  then show ?thesis
    by (auto simp add: ms_str lit_Cons lit_Nil cu_eq_iff)
qed

lemma ms_scheme:
  "\<exists>tl. ms (Group 2 (seqs [str ''http'', Opt (Chr (cu CHR ''s'')), str ''://'', LazyStar Dot])) st =
     (if startsWith (rest st) (lit ''https://'')
      then st\<lparr>pos := pos st + length ''https://'', rest := drop (length ''https://'') (rest st),
              caps := (2, lit ''https://'') # caps st\<rparr> # tl
      else if startsWith (rest st) (lit ''http://'')
      then st\<lparr>pos := pos st + length ''http://'', rest := drop (length ''http://'') (rest st),
              caps := (2, lit ''http://'') # caps st\<rparr> # tl
      else [])"
proof -
  have l: "lit ''https://'' = lit ''http'' @ lit ''s://''" "lit ''http://'' = lit ''http'' @ lit ''://''"
    by (simp_all add: lit_def)
  let ?st1 = "st\<lparr>pos := pos st + length ''http'', rest := drop (length ''http'') (rest st)\<rparr>"
  have seq: "ms (seqs [str ''http'', Opt (Chr (cu CHR ''s'')), str ''://'', LazyStar Dot]) st
     = (if startsWith (rest st) (lit ''http'')
        then ms (seqs [Opt (Chr (cu CHR ''s'')), str ''://'', LazyStar Dot]) ?st1 else [])"
    by (simp add: ms_str)
  consider (https) "startsWith (rest st) (lit ''https://'')"
    | (http) "\<not> startsWith (rest st) (lit ''https://'')" "startsWith (rest st) (lit ''http://'')"
    | (none) "\<not> startsWith (rest st) (lit ''https://'')" "\<not> startsWith (rest st) (lit ''http://'')"
    by blast
  then show ?thesis
  proof cases
    case https
    let ?st2 = "st\<lparr>pos := pos st + length ''https://'', rest := drop (length ''https://'') (rest st)\<rparr>"
    obtain tl where tl: "lazy_star (length (rest st) - length ''https://'') (ms Dot) ?st2 = ?st2 # tl"
      using lazy_star_head by blast
    have t: "take 8 (rest st) = lit ''https://''"
      using startsWith_take[OF https] by (simp add: length_lit eval_nat_numeral)
    have "ms (seqs [str ''http'', Opt (Chr (cu CHR ''s'')), str ''://'', LazyStar Dot]) st = ?st2 # tl"
      unfolding seq ms_scheme_tail using https tl
      by (simp add: l startsWith_append length_lit add.commute)
    then show ?thesis
      using https t by (simp del: seqs.simps) 
  next
    case http
    let ?st2 = "st\<lparr>pos := pos st + length ''http://'', rest := drop (length ''http://'') (rest st)\<rparr>"
    obtain tl where tl: "lazy_star (length (rest st) - length ''http://'') (ms Dot) ?st2 = ?st2 # tl"
      using lazy_star_head by blast
    have t: "take 7 (rest st) = lit ''http://''"
      using startsWith_take[OF http(2)] by (simp add: length_lit eval_nat_numeral)
    have "ms (seqs [str ''http'', Opt (Chr (cu CHR ''s'')), str ''://'', LazyStar Dot]) st = ?st2 # tl"
      unfolding seq ms_scheme_tail using http tl
      by (simp add: l startsWith_append length_lit add.commute)
    then show ?thesis
      using http t by (simp del: seqs.simps) 
  next
    case none
    have "ms (seqs [str ''http'', Opt (Chr (cu CHR ''s'')), str ''://'', LazyStar Dot]) st = []"
      unfolding seq ms_scheme_tail using none
      by (simp add: l startsWith_append length_lit)
    then show ?thesis
      using none by (simp del: seqs.simps)
  qed
qed
lemma dq_cu: "dq = cu (CHR 0x22)"
  by (simp add: dq_def cu_def)

lemma sq_cu: "sq = cu (CHR 0x27)"
  by (simp add: sq_def cu_def)

lemma ms_equals_quote:
  "ms (seqs [str ''='', Chr dq, g]) st
     = (if startsWith (rest st) (lit ''=\"'')
        then ms g (st\<lparr>pos := pos st + length ''=\"'', rest := drop (length ''=\"'') (rest st)\<rparr>)
        else [])"
proof -
  show ?thesis
  proof (cases "rest st")
    case Nil
    then show ?thesis by (simp add: ms_str dq_cu lit_Cons lit_Nil)
  next
    case (Cons d ds)
    then show ?thesis
      by (cases ds) (auto simp add: ms_str dq_cu lit_Cons lit_Nil)
  qed
qed

lemma ms_after_attr:
  "\<exists>tl. ms (seqs [str ''='', Chr dq,
              Group 2 (seqs [str ''http'', Opt (Chr (cu CHR ''s'')), str ''://'', LazyStar Dot])]) st =
     (if startsWith (rest st) (lit ''=\"https://'')
      then st\<lparr>pos := pos st + length ''=\"https://'', rest := drop (length ''=\"https://'') (rest st),
              caps := (2, lit ''https://'') # caps st\<rparr> # tl
      else if startsWith (rest st) (lit ''=\"http://'')
      then st\<lparr>pos := pos st + length ''=\"http://'', rest := drop (length ''=\"http://'') (rest st),
              caps := (2, lit ''http://'') # caps st\<rparr> # tl
      else [])"
proof -
  let ?G = "Group 2 (seqs [str ''http'', Opt (Chr (cu CHR ''s'')), str ''://'', LazyStar Dot])"
  let ?st1 = "st\<lparr>pos := pos st + length ''=\"'', rest := drop (length ''=\"'') (rest st)\<rparr>"
  have l: "lit ''=\"https://'' = lit ''=\"'' @ lit ''https://''" "lit ''=\"http://'' = lit ''=\"'' @ lit ''http://''"
    by (simp_all add: lit_def)
  have seq: "ms (seqs [str ''='', Chr dq, ?G]) st
     = (if startsWith (rest st) (lit ''=\"'') then ms ?G ?st1 else [])"
    by (rule ms_equals_quote)
  obtain tl where tl: "ms ?G ?st1 =
     (if startsWith (rest ?st1) (lit ''https://'')
      then ?st1\<lparr>pos := pos ?st1 + length ''https://'', rest := drop (length ''https://'') (rest ?st1),
              caps := (2, lit ''https://'') # caps ?st1\<rparr> # tl
      else if startsWith (rest ?st1) (lit ''http://'')
      then ?st1\<lparr>pos := pos ?st1 + length ''http://'', rest := drop (length ''http://'') (rest ?st1),
              caps := (2, lit ''http://'') # caps ?st1\<rparr> # tl
      else [])"
    using ms_scheme[of ?st1] by blast
  show ?thesis
    unfolding seq tl by (rule exI[of _ tl]) (simp add: l startsWith_append length_lit)
qed
lemma ms_attr_group:
  "ms (Seq (Group 1 (Alt (str ''href'') (str ''src''))) r) st =
     (if startsWith (rest st) (lit ''href'')
      then ms r (st\<lparr>pos := pos st + length ''href'', rest := drop (length ''href'') (rest st),
                     caps := (1, lit ''href'') # caps st\<rparr>)
      else if startsWith (rest st) (lit ''src'')
      then ms r (st\<lparr>pos := pos st + length ''src'', rest := drop (length ''src'') (rest st),
                     caps := (1, lit ''src'') # caps st\<rparr>)
      else [])"
proof -
  have x: "\<not> (startsWith (rest st) (lit ''href'') \<and> startsWith (rest st) (lit ''src''))"
    by (cases "rest st") (simp_all add: lit_Cons cu_eq_iff)
  have h: "startsWith (rest st) (lit ''href'') \<Longrightarrow> take 4 (rest st) = lit ''href''"
    using startsWith_take[of "rest st" "lit ''href''"] by (simp add: length_lit eval_nat_numeral)
  have s: "startsWith (rest st) (lit ''src'') \<Longrightarrow> take 3 (rest st) = lit ''src''"
    using startsWith_take[of "rest st" "lit ''src''"] by (simp add: length_lit eval_nat_numeral)
  show ?thesis
    using x h s by (auto simp add: ms_str)
qed

lemma match_at_abs_regex:
  "match_at abs_regex i s =
     (if startsWith s (lit ''href=\"https://'')
      then Some (length ''href=\"https://'', [(2, lit ''https://''), (1, lit ''href'')])
      else if startsWith s (lit ''href=\"http://'')
      then Some (length ''href=\"http://'', [(2, lit ''http://''), (1, lit ''href'')])
      else if startsWith s (lit ''src=\"https://'')
      then Some (length ''src=\"https://'', [(2, lit ''https://''), (1, lit ''src'')])
      else if startsWith s (lit ''src=\"http://'')
      then Some (length ''src=\"http://'', [(2, lit ''http://''), (1, lit ''src'')])
      else None)"
proof -
  let ?R = "seqs [str ''='', Chr dq,
              Group 2 (seqs [str ''http'', Opt (Chr (cu CHR ''s'')), str ''://'', LazyStar Dot])]"
  let ?st = "\<lparr>pos = i, rest = s, caps = []\<rparr>"
  let ?h = "?st\<lparr>pos := pos ?st + length ''href'', rest := drop (length ''href'') (rest ?st),
                 caps := (1, lit ''href'') # caps ?st\<rparr>"
  let ?s = "?st\<lparr>pos := pos ?st + length ''src'', rest := drop (length ''src'') (rest ?st),
                 caps := (1, lit ''src'') # caps ?st\<rparr>"
  have r: "abs_regex = Seq (Group 1 (Alt (str ''href'') (str ''src''))) ?R"
    by (simp add: abs_regex_def)
  have l: "lit ''href=\"https://'' = lit ''href'' @ lit ''=\"https://''"
    "lit ''href=\"http://'' = lit ''href'' @ lit ''=\"http://''"
    "lit ''src=\"https://'' = lit ''src'' @ lit ''=\"https://''"
    "lit ''src=\"http://'' = lit ''src'' @ lit ''=\"http://''"
    by (simp_all add: lit_def)
  have x: "\<not> (startsWith s (lit ''href'') \<and> startsWith s (lit ''src''))"
    by (cases s) (simp_all add: lit_Cons cu_eq_iff)
  obtain th where th: "ms ?R ?h =
     (if startsWith (rest ?h) (lit ''=\"https://'')
      then ?h\<lparr>pos := pos ?h + length ''=\"https://'', rest := drop (length ''=\"https://'') (rest ?h),
              caps := (2, lit ''https://'') # caps ?h\<rparr> # th
      else if startsWith (rest ?h) (lit ''=\"http://'')
      then ?h\<lparr>pos := pos ?h + length ''=\"http://'', rest := drop (length ''=\"http://'') (rest ?h),
              caps := (2, lit ''http://'') # caps ?h\<rparr> # th
      else [])"
    using ms_after_attr[of ?h] by blast
  obtain ts where ts: "ms ?R ?s =
     (if startsWith (rest ?s) (lit ''=\"https://'')
      then ?s\<lparr>pos := pos ?s + length ''=\"https://'', rest := drop (length ''=\"https://'') (rest ?s),
              caps := (2, lit ''https://'') # caps ?s\<rparr> # ts
      else if startsWith (rest ?s) (lit ''=\"http://'')
      then ?s\<lparr>pos := pos ?s + length ''=\"http://'', rest := drop (length ''=\"http://'') (rest ?s),
              caps := (2, lit ''http://'') # caps ?s\<rparr> # ts
      else [])"
    using ms_after_attr[of ?s] by blast
  have "ms abs_regex ?st =
     (if startsWith s (lit ''href'') then ms ?R ?h
      else if startsWith s (lit ''src'') then ms ?R ?s else [])"
    unfolding r ms_attr_group by simp
  then show ?thesis
    unfolding match_at_def th ts l startsWith_append using x
    by (simp add: length_lit)
qed
lemma ms_rel_attr:
  "ms (Group 2 (Alt (str ''href'') (Alt (str ''src'') (str ''action'')))) st =
     (if startsWith (rest st) (lit ''href'')
      then [st\<lparr>pos := pos st + length ''href'', rest := drop (length ''href'') (rest st),
               caps := (2, lit ''href'') # caps st\<rparr>]
      else if startsWith (rest st) (lit ''src'')
      then [st\<lparr>pos := pos st + length ''src'', rest := drop (length ''src'') (rest st),
               caps := (2, lit ''src'') # caps st\<rparr>]
      else if startsWith (rest st) (lit ''action'')
      then [st\<lparr>pos := pos st + length ''action'', rest := drop (length ''action'') (rest st),
               caps := (2, lit ''action'') # caps st\<rparr>]
      else [])"
proof -
  have x: "\<not> (startsWith (rest st) (lit ''href'') \<and> startsWith (rest st) (lit ''src''))"
    "\<not> (startsWith (rest st) (lit ''href'') \<and> startsWith (rest st) (lit ''action''))"
    "\<not> (startsWith (rest st) (lit ''src'') \<and> startsWith (rest st) (lit ''action''))"
    by (cases "rest st"; simp add: lit_Cons cu_eq_iff)+
  have h: "startsWith (rest st) (lit ''href'') \<Longrightarrow> take 4 (rest st) = lit ''href''"
    using startsWith_take[of "rest st" "lit ''href''"] by (simp add: length_lit eval_nat_numeral)
  have s: "startsWith (rest st) (lit ''src'') \<Longrightarrow> take 3 (rest st) = lit ''src''"
    using startsWith_take[of "rest st" "lit ''src''"] by (simp add: length_lit eval_nat_numeral)
  have a: "startsWith (rest st) (lit ''action'') \<Longrightarrow> take 6 (rest st) = lit ''action''"
    using startsWith_take[of "rest st" "lit ''action''"] by (simp add: length_lit eval_nat_numeral)
  show ?thesis
    using x h s a by (auto simp add: ms_str)
qed

lemma ms_rel_tail:
  "concat (map (ms (seqs [str ''/'', NotAhead (str ''/'')]))
     (map (\<lambda>st'. st'\<lparr>caps := (1, take (pos st' - p0) s0) # caps st'\<rparr>)
        (concat (map (ms (seqs [str ''='', OneOf [dq, sq]])) [st])))) =
   (case rest st of
      e # q # sl # t \<Rightarrow>
        if e = cu CHR ''='' \<and> (q = dq \<or> q = sq) \<and> sl = cu CHR ''/'' \<and> \<not> startsWith t (lit ''/'')
        then [st\<lparr>pos := pos st + 3, rest := t, caps := (1, take (pos st + 2 - p0) s0) # caps st\<rparr>]
        else []
    | _ \<Rightarrow> [])"
  by (auto simp add: ms_str lit_Cons lit_Nil eval_nat_numeral split: list.splits)
lemma ms_group_shape:
  "ms (seqs [Group 1 (seqs [g, e1, e2]), t1, t2]) st =
     concat (map (ms (seqs [t1, t2]))
       (map (\<lambda>st'. st'\<lparr>caps := (1, take (pos st' - pos st) (rest st)) # caps st'\<rparr>)
          (concat (map (ms (seqs [e1, e2])) (ms g st)))))"
  by simp

lemma match_at_rel_regex:
  "match_at rel_regex i s =
     (case link_attr s of
        None \<Rightarrow> None
      | Some a \<Rightarrow>
          (case drop (length a) s of
             e # q # sl # t \<Rightarrow>
               if e = cu CHR ''='' \<and> (q = dq \<or> q = sq) \<and> sl = cu CHR ''/''
                  \<and> \<not> startsWith t (lit ''/'')
               then Some (length a + 3, [(1, take (length a + 2) s), (2, lit a)])
               else None
           | _ \<Rightarrow> None))"
proof -
  let ?st = "\<lparr>pos = i, rest = s, caps = []\<rparr>"
  let ?G = "Group 2 (Alt (str ''href'') (Alt (str ''src'') (str ''action'')))"
  have r: "rel_regex = seqs [Group 1 (seqs [?G, str ''='', OneOf [dq, sq]]), str ''/'', NotAhead (str ''/'')]"
    by (simp add: rel_regex_def)
  show ?thesis
  proof (cases "link_attr s")
    case None
    then have "ms ?G ?st = []"
      unfolding ms_rel_attr by (simp add: link_attr_def split: if_splits)
    then have "ms rel_regex ?st = []"
      unfolding r ms_group_shape by simp
    with None show ?thesis
      by (simp add: match_at_def)
  next
    case (Some a)
    then have a: "ms ?G ?st = [?st\<lparr>pos := pos ?st + length a, rest := drop (length a) (rest ?st),
               caps := (2, lit a) # caps ?st\<rparr>]"
      unfolding ms_rel_attr by (auto simp add: link_attr_def split: if_splits)
    show ?thesis
      unfolding match_at_def r ms_group_shape a ms_rel_tail Some
      by (auto split: list.splits)
  qed
qed
subsection \<open>Scanning and the positions of candidates\<close>

lemma endsWith_Nil: "endsWith s [] = True"
  by (simp add: endsWith_def)

lemma endsWith_snoc: "endsWith (s @ [c]) (a @ [d]) = (c = d \<and> endsWith s a)"
  by (simp add: endsWith_def)

lemma endsWith_Nil_left: "endsWith [] a = (a = [])"
  by (cases "rev a") (simp_all add: endsWith_def)

lemma straddles_start: "[] \<notin> set As \<Longrightarrow> \<not> straddles As T [] s"
  by (auto simp: straddles_def endsWith_Nil_left)

lemma straddles_here:
  "\<not> straddles As T pre s \<Longrightarrow> [] \<notin> set As \<Longrightarrow> \<not> (list_ex (endsWith pre) As \<and> T s)"
proof
  assume n: "\<not> straddles As T pre s" and ne: "[] \<notin> set As"
    and "list_ex (endsWith pre) As \<and> T s"
  then obtain A where A: "A \<in> set As" "endsWith pre A" "T s"
    by (auto simp: list_ex_iff)
  with ne have "0 < length A" by auto
  with A have "straddles As T pre s"
    unfolding straddles_def by (intro bexI[of _ A] exI[of _ "length A"]) simp_all
  with n show False by simp
qed

lemma straddles_step:
  assumes "\<not> straddles As T pre (c # cs)"
    and "\<forall>A\<in>set As. \<not> (startsWith (c # cs) A \<and> T (drop (length A) (c # cs)))"
  shows "\<not> straddles As T (pre @ [c]) cs"
proof
  assume "straddles As T (pre @ [c]) cs"
  then obtain A k where A: "A \<in> set As" and k: "0 < k" "k \<le> length A"
    and e: "endsWith (pre @ [c]) (take k A)" and s: "startsWith cs (drop k A)"
    and t: "T (drop (length A - k) cs)"
    unfolding straddles_def by blast
  from k obtain j where j: "k = Suc j" "j < length A"
    by (cases k) auto
  then have tk: "take k A = take j A @ [A ! j]"
    by (simp add: take_Suc_conv_app_nth)
  with e have c: "c = A ! j" and e': "endsWith pre (take j A)"
    by (simp_all add: endsWith_snoc)
  have dj: "drop j A = c # drop k A"
    using j c by (simp add: Cons_nth_drop_Suc)
  then have s': "startsWith (c # cs) (drop j A)"
    using s by simp
  have "length A - j = Suc (length A - k)"
    using j by simp
  then have t': "T (drop (length A - j) (c # cs))"
    using t by simp
  show False
  proof (cases j)
    case 0
    with s' t' assms(2) A show False by auto
  next
    case (Suc i)
    with e' s' t' j A have "straddles As T pre (c # cs)"
      unfolding straddles_def by (intro bexI[of _ A] exI[of _ j]) simp_all
    with assms(1) show False by simp
  qed
qed

lemma straddles_after:
  assumes "\<forall>A\<in>set As. c \<notin> set A"
  shows "\<not> straddles As T (pre @ [c]) s"
proof
  assume "straddles As T (pre @ [c]) s"
  then obtain A k where A: "A \<in> set As" and k: "0 < k" "k \<le> length A"
    and e: "endsWith (pre @ [c]) (take k A)"
    unfolding straddles_def by blast
  from k obtain j where j: "k = Suc j" "j < length A"
    by (cases k) auto
  then have "take k A = take j A @ [A ! j]"
    by (simp add: take_Suc_conv_app_nth)
  with e have "c = A ! j"
    by (simp add: endsWith_snoc)
  with j have "c \<in> set A" by simp
  with assms A show False by blast
qed
lemma subst_plain:
  "dollar \<notin> set a \<Longrightarrow> subst m cs mt pr po (a @ t) = a @ subst m cs mt pr po t"
proof (induction a)
  case Nil
  then show ?case by simp
next
  case (Cons c a)
  then show ?case
    by (cases "a @ t") auto
qed

lemma subst_group:
  assumes "d \<in> {cu CHR ''1'', cu CHR ''2''}"
  shows "subst 2 cs mt pr po (dollar # d # t) = capture cs (digit_val d) @ subst 2 cs mt pr po t"
proof -
  have d: "is_digit d" "1 \<le> digit_val d" "digit_val d \<le> 2" "d \<noteq> dollar" "d \<noteq> 0x26"
     "d \<noteq> 0x60" "d \<noteq> 0x27"
    using assms by (auto simp: is_digit_def digit_val_def cu_def dollar_def)
  show ?thesis
  proof (cases t)
    case Nil
    then show ?thesis using d by simp
  next
    case (Cons e t')
    have "\<not> (is_digit e \<and> 10 * digit_val d + digit_val e \<le> 2)"
      using d by simp
    then show ?thesis
      using d Cons by simp
  qed
qed

lemma replace_from_Nil:
  "match_at r (length pre) [] = None \<Longrightarrow> replace_from r t pre [] = []"
  by simp

lemma replace_from_skip:
  "match_at r (length pre) (c # cs) = None
   \<Longrightarrow> replace_from r t pre (c # cs) = c # replace_from r t (pre @ [c]) cs"
  by simp

lemma replace_from_match:
  "match_at r (length pre) s = Some (n, cs) \<Longrightarrow> 0 < n \<Longrightarrow> s \<noteq> []
   \<Longrightarrow> replace_from r t pre s =
       subst (ngroups r) cs (take n s) pre (drop n s) t @ replace_from r t (pre @ take n s) (drop n s)"
  by simp
lemma ngroups_seqs: "ngroups (seqs rs) = sum_list (map ngroups rs)"
  by (induction rs rule: seqs.induct) simp_all

lemma ngroups_str: "ngroups (str l) = 0"
  by (simp add: str_def ngroups_seqs comp_def)

lemma ngroups_abs_regex: "ngroups abs_regex = 2"
  by (simp add: abs_regex_def ngroups_str)

lemma ngroups_rel_regex: "ngroups rel_regex = 2"
  by (simp add: rel_regex_def ngroups_str)

lemma startsWith_decomp: "startsWith s a \<Longrightarrow> s = a @ drop (length a) s"
  by (induction s a rule: startsWith.induct) auto

lemma insert_before_urls_append:
  "insert_before_urls ins pre (a @ b) post =
     insert_before_urls ins pre a (b @ post) @ insert_before_urls ins (pre @ a) b post"
  by (induction a arbitrary: pre) simp_all

lemma replace_slashes_append:
  "replace_slashes ins pre (a @ b) post =
     replace_slashes ins pre a (b @ post) @ replace_slashes ins (pre @ a) b post"
  by (induction a arbitrary: pre) simp_all

lemma insert_over_abs_match:
  "insert_before_urls ins pre (lit ''href=\"http://'') post = lit ''href=\"'' @ ins @ lit ''http://''"
  "insert_before_urls ins pre (lit ''href=\"https://'') post = lit ''href=\"'' @ ins @ lit ''https://''"
  "insert_before_urls ins pre (lit ''src=\"http://'') post = lit ''src=\"'' @ ins @ lit ''http://''"
  "insert_before_urls ins pre (lit ''src=\"https://'') post = lit ''src=\"'' @ ins @ lit ''https://''"
  by (simp_all add: lit_Cons lit_Nil abs_url_here_def abs_tail_def abs_attr_quotes_def endsWith_def
      cu_eq_iff)
lemma abs_template:
  assumes "dollar \<notin> set protocol'" and "dollar \<notin> set host'"
  shows "subst 2 cs mt pr po (lit ''$1='' @ [dq] @ protocol' @ lit ''//'' @ host' @ lit ''/$2'')
       = capture cs 1 @ lit ''=\"'' @ (protocol' @ lit ''//'' @ host' @ lit ''/'') @ capture cs 2"
proof -
  let ?x = "lit ''=\"'' @ protocol' @ lit ''//'' @ host' @ lit ''/''"
  have x: "dollar \<notin> set ?x"
    using assms by (simp add: lit_def cu_def dollar_def)
  have t: "lit ''$1='' @ [dq] @ protocol' @ lit ''//'' @ host' @ lit ''/$2''
         = dollar # cu CHR ''1'' # (?x @ [dollar, cu CHR ''2''])"
    by (simp add: lit_def cu_def dollar_def dq_def)
  have d: "digit_val (cu CHR ''1'') = 1" "digit_val (cu CHR ''2'') = 2"
    by (simp_all add: digit_val_def cu_def)
  have "subst 2 cs mt pr po [dollar, cu CHR ''2''] = capture cs 2"
    using subst_group[of "cu CHR ''2''" cs mt pr po "[]"] by (simp add: d)
  then show ?thesis
    unfolding t using subst_group[of "cu CHR ''1''" cs mt pr po "?x @ [dollar, cu CHR ''2'']"]
      subst_plain[OF x, of 2 cs mt pr po "[dollar, cu CHR ''2'']"]
    by (simp add: d)
qed

lemma abs_attr_quotes_props:
  "[] \<notin> set abs_attr_quotes" "\<forall>A\<in>set abs_attr_quotes. cu CHR ''/'' \<notin> set A"
  by (simp_all add: abs_attr_quotes_def lit_def cu_eq_iff)

lemma abs_no_match:
  assumes "match_at abs_regex i s = None"
  shows "\<forall>A\<in>set abs_attr_quotes. \<not> (startsWith s A \<and> abs_tail (drop (length A) s))"
proof -
  have l: "lit ''href=\"https://'' = lit ''href=\"'' @ lit ''https://''"
    "lit ''href=\"http://'' = lit ''href=\"'' @ lit ''http://''"
    "lit ''src=\"https://'' = lit ''src=\"'' @ lit ''https://''"
    "lit ''src=\"http://'' = lit ''src=\"'' @ lit ''http://''"
    by (simp_all add: lit_def)
  from assms have "\<not> startsWith s (lit ''href=\"https://'')" "\<not> startsWith s (lit ''href=\"http://'')"
    "\<not> startsWith s (lit ''src=\"https://'')" "\<not> startsWith s (lit ''src=\"http://'')"
    unfolding match_at_abs_regex by (simp_all split: if_splits)
  then show ?thesis
    unfolding l startsWith_append by (auto simp: abs_attr_quotes_def abs_tail_def)
qed

lemma abs_match_cases:
  assumes "match_at abs_regex i s = Some (n, cs)"
  obtains A sch where "A \<in> {lit ''href'', lit ''src''}" "sch \<in> {lit ''http://'', lit ''https://''}"
    "startsWith s (A @ lit ''=\"'' @ sch)" "n = length (A @ lit ''=\"'' @ sch)"
    "capture cs 1 = A" "capture cs 2 = sch"
proof -
  have l: "lit ''href=\"https://'' = lit ''href'' @ lit ''=\"'' @ lit ''https://''"
    "lit ''href=\"http://'' = lit ''href'' @ lit ''=\"'' @ lit ''http://''"
    "lit ''src=\"https://'' = lit ''src'' @ lit ''=\"'' @ lit ''https://''"
    "lit ''src=\"http://'' = lit ''src'' @ lit ''=\"'' @ lit ''http://''"
    by (simp_all add: lit_def)
  from assms consider
      "startsWith s (lit ''href=\"https://'')" "n = length ''href=\"https://''"
        "cs = [(2, lit ''https://''), (1, lit ''href'')]"
    | "startsWith s (lit ''href=\"http://'')" "n = length ''href=\"http://''"
        "cs = [(2, lit ''http://''), (1, lit ''href'')]"
    | "startsWith s (lit ''src=\"https://'')" "n = length ''src=\"https://''"
        "cs = [(2, lit ''https://''), (1, lit ''src'')]"
    | "startsWith s (lit ''src=\"http://'')" "n = length ''src=\"http://''"
        "cs = [(2, lit ''http://''), (1, lit ''src'')]"
    unfolding match_at_abs_regex by (auto split: if_splits)
  then show thesis
  proof cases
    case 1
    show ?thesis
      by (rule that[of "lit ''href''" "lit ''https://''"]) (use 1 in \<open>simp_all add: l capture_def length_lit\<close>)
  next
    case 2
    show ?thesis
      by (rule that[of "lit ''href''" "lit ''http://''"]) (use 2 in \<open>simp_all add: l capture_def length_lit\<close>)
  next
    case 3
    show ?thesis
      by (rule that[of "lit ''src''" "lit ''https://''"]) (use 3 in \<open>simp_all add: l capture_def length_lit\<close>)
  next
    case 4
    show ?thesis
      by (rule that[of "lit ''src''" "lit ''http://''"]) (use 4 in \<open>simp_all add: l capture_def length_lit\<close>)
  qed
qed

lemma lit_join: "lit a @ lit b = lit (a @ b)" "lit a @ lit b @ z = lit (a @ b) @ z"
  by (simp_all add: lit_def)

lemma insert_over_abs_match_gen:
  assumes "A \<in> {lit ''href'', lit ''src''}" and "sch \<in> {lit ''http://'', lit ''https://''}"
  shows "insert_before_urls ins pre (A @ lit ''=\"'' @ sch) post = A @ lit ''=\"'' @ ins @ sch"
  using assms by (auto simp: lit_join insert_over_abs_match)

lemma abs_scan:
  assumes "dollar \<notin> set protocol'" and "dollar \<notin> set host'"
  shows "\<not> straddles abs_attr_quotes abs_tail pre s
    \<Longrightarrow> replace_from abs_regex (lit ''$1='' @ [dq] @ protocol' @ lit ''//'' @ host' @ lit ''/$2'') pre s
        = insert_before_urls (protocol' @ lit ''//'' @ host' @ lit ''/'') pre s []"
proof (induction "length s" arbitrary: s pre rule: less_induct)
  case less
  let ?t = "lit ''$1='' @ [dq] @ protocol' @ lit ''//'' @ host' @ lit ''/$2''"
  let ?ins = "protocol' @ lit ''//'' @ host' @ lit ''/''"
  show ?case
  proof (cases "match_at abs_regex (length pre) s")
    case None
    show ?thesis
    proof (cases s)
      case Nil
      with None show ?thesis by (simp del: replace_from.simps add: replace_from_Nil)
    next
      case (Cons c cs)
      have h: "\<not> abs_url_here pre (c # cs)"
        using straddles_here[OF less.prems abs_attr_quotes_props(1)] Cons
        by (simp add: abs_url_here_def)
      have "\<not> straddles abs_attr_quotes abs_tail (pre @ [c]) cs"
        using straddles_step[of abs_attr_quotes abs_tail pre c cs] less.prems abs_no_match[OF None] Cons
        by simp
      then have "replace_from abs_regex ?t (pre @ [c]) cs = insert_before_urls ?ins (pre @ [c]) cs []"
        using less.hyps[of cs "pre @ [c]"] Cons by simp
      then show ?thesis
        using None Cons h by (simp del: replace_from.simps add: replace_from_skip)
    qed
  next
    case (Some a)
    then obtain n cs where m: "match_at abs_regex (length pre) s = Some (n, cs)"
      by (cases a) auto
    from abs_match_cases[OF m] obtain A sch where A: "A \<in> {lit ''href'', lit ''src''}"
      and sch: "sch \<in> {lit ''http://'', lit ''https://''}"
      and sw: "startsWith s (A @ lit ''=\"'' @ sch)" and n: "n = length (A @ lit ''=\"'' @ sch)"
      and c: "capture cs 1 = A" "capture cs 2 = sch"
      by blast
    let ?m = "A @ lit ''=\"'' @ sch"
    let ?r = "drop n s"
    have s: "s = ?m @ ?r"
      using startsWith_decomp[OF sw] n by simp
    have n0: "0 < n" "s \<noteq> []"
      using n sch s by (auto simp: lit_def)
    have tk: "take n s = ?m"
      using startsWith_take[OF sw] n by simp
    have last: "?m = butlast ?m @ [cu CHR ''/'']"
      using sch by (auto simp: lit_def butlast_append)
    have "\<not> straddles abs_attr_quotes abs_tail ((pre @ butlast ?m) @ [cu CHR ''/'']) ?r"
      by (rule straddles_after[OF abs_attr_quotes_props(2)])
    then have "\<not> straddles abs_attr_quotes abs_tail (pre @ ?m) ?r"
      using last by (metis append.assoc)
    moreover have "length ?r < length s"
      using n0 by simp
    ultimately have ih: "replace_from abs_regex ?t (pre @ ?m) ?r = insert_before_urls ?ins (pre @ ?m) ?r []"
      using less.hyps[of ?r "pre @ ?m"] by simp
    have "replace_from abs_regex ?t pre s
        = subst 2 cs ?m pre ?r ?t @ replace_from abs_regex ?t (pre @ ?m) ?r"
      using replace_from_match[OF m n0, of ?t] by (simp only: tk ngroups_abs_regex)
    also have "\<dots> = (A @ lit ''=\"'' @ ?ins @ sch) @ insert_before_urls ?ins (pre @ ?m) ?r []"
      unfolding ih abs_template[OF assms] c by simp
    also have "\<dots> = insert_before_urls ?ins pre (?m @ ?r) []"
      unfolding insert_before_urls_append[of ?ins pre ?m ?r "[]"]
        insert_over_abs_match_gen[OF A sch] by simp
    finally show ?thesis
      using s by simp
  qed
qed
lemma startsWith_prefix: "startsWith (a @ b) a"
  by (induction a) simp_all

lemma rel_template:
  assumes "dollar \<notin> set protocol'" and "dollar \<notin> set host'" and "dollar \<notin> set origin'"
  shows "subst 2 cs mt pr po (lit ''$1'' @ protocol' @ lit ''//'' @ host' @ lit ''/'' @ origin' @ lit ''/'')
       = capture cs 1 @ (protocol' @ lit ''//'' @ host' @ lit ''/'' @ origin' @ lit ''/'')"
proof -
  let ?x = "protocol' @ lit ''//'' @ host' @ lit ''/'' @ origin' @ lit ''/''"
  have x: "dollar \<notin> set ?x"
    using assms by (simp add: lit_def cu_def dollar_def)
  have t: "lit ''$1'' @ ?x = dollar # cu CHR ''1'' # (?x @ [])"
    by (simp add: lit_def cu_def dollar_def)
  have d: "digit_val (cu CHR ''1'') = 1"
    by (simp add: digit_val_def cu_def)
  show ?thesis
    unfolding t using subst_group[of "cu CHR ''1''" cs mt pr po "?x @ []"]
      subst_plain[OF x, of 2 cs mt pr po "[]"]
    by (simp add: d)
qed

lemma rel_attr_quotes_props:
  "[] \<notin> set rel_attr_quotes" "\<forall>A\<in>set rel_attr_quotes. cu CHR ''/'' \<notin> set A"
  by (simp_all add: rel_attr_quotes_def lit_def cu_eq_iff sq_cu)

lemma link_attr_cases:
  assumes "link_attr s = Some a"
  shows "a \<in> {''href'', ''src'', ''action''}" and "startsWith s (lit a)"
  using assms by (auto simp: link_attr_def split: if_splits)

lemma link_attr_unique:
  assumes "a \<in> {''href'', ''src'', ''action''}" and "startsWith s (lit a)"
  shows "link_attr s = Some a"
  using assms by (cases s) (auto simp: link_attr_def lit_Cons cu_eq_iff)

lemma rel_attr_quotes_iff:
  "A \<in> set rel_attr_quotes =
     (\<exists>a q. a \<in> {''href'', ''src'', ''action''} \<and> q \<in> {dq, sq} \<and> A = lit a @ [cu CHR ''='', q])"
  by (auto simp: rel_attr_quotes_def lit_def dq_cu)

lemma rel_tail_iff: "rel_tail s = (\<exists>t. s = cu CHR ''/'' # t \<and> \<not> startsWith t (lit ''/''))"
  by (cases s) (auto simp: rel_tail_def lit_Cons lit_Nil)

lemma rel_no_match:
  assumes "match_at rel_regex i s = None"
  shows "\<forall>A\<in>set rel_attr_quotes. \<not> (startsWith s A \<and> rel_tail (drop (length A) s))"
proof (intro ballI notI)
  fix A
  assume "A \<in> set rel_attr_quotes" and h: "startsWith s A \<and> rel_tail (drop (length A) s)"
  then obtain a q where a: "a \<in> {''href'', ''src'', ''action''}" and q: "q \<in> {dq, sq}"
    and A: "A = lit a @ [cu CHR ''='', q]"
    unfolding rel_attr_quotes_iff by blast
  from h obtain t where t: "drop (length A) s = cu CHR ''/'' # t" "\<not> startsWith t (lit ''/'')"
    unfolding rel_tail_iff by blast
  from h have s: "s = A @ drop (length A) s"
    using startsWith_decomp by blast
  have "startsWith s (lit a)"
    using h by (simp add: A startsWith_append)
  then have la: "link_attr s = Some a"
    using a link_attr_unique by blast
  have "drop (length a) s = cu CHR ''='' # q # cu CHR ''/'' # t"
    using arg_cong[OF s, of "drop (length a)"] t by (simp add: A length_lit)
  with assms la q t show False
    unfolding match_at_rel_regex by auto
qed

lemma rel_match_cases:
  assumes "match_at rel_regex i s = Some (n, cs)"
  obtains A where "A \<in> set rel_attr_quotes" "startsWith s (A @ lit ''/'')"
    "\<not> startsWith (drop (Suc (length A)) s) (lit ''/'')" "n = Suc (length A)" "capture cs 1 = A"
proof -
  from assms obtain a where la: "link_attr s = Some a"
    unfolding match_at_rel_regex by (auto split: option.splits)
  with assms obtain q t where d: "drop (length a) s = cu CHR ''='' # q # cu CHR ''/'' # t"
    and q: "q = dq \<or> q = sq" and t: "\<not> startsWith t (lit ''/'')"
    and n: "n = length a + 3" and cs: "cs = [(1, take (length a + 2) s), (2, lit a)]"
    unfolding match_at_rel_regex by (auto split: list.splits if_splits)
  have sa: "startsWith s (lit a)" and a: "a \<in> {''href'', ''src'', ''action''}"
    using link_attr_cases[OF la] by simp_all
  let ?A = "lit a @ [cu CHR ''='', q]"
  have s: "s = lit a @ cu CHR ''='' # q # cu CHR ''/'' # t"
    using startsWith_decomp[OF sa] d by (simp add: length_lit)
  show thesis
  proof (rule that[of ?A])
    show "?A \<in> set rel_attr_quotes"
      unfolding rel_attr_quotes_iff using a q by blast
    show "startsWith s (?A @ lit ''/'')"
      by (subst s) (simp add: startsWith_append startsWith_prefix lit_Cons lit_Nil)
    show "\<not> startsWith (drop (Suc (length ?A)) s) (lit ''/'')"
      by (subst s) (simp add: t)
    show "n = Suc (length ?A)"
      using n by (simp add: length_lit)
    have "take (length a + 2) s = ?A"
      by (subst s) (simp add: length_lit)
    then show "capture cs 1 = ?A"
      by (simp add: cs capture_def)
  qed
qed
lemma replace_over_rel_match:
  assumes "A \<in> set rel_attr_quotes" and "\<not> startsWith post (lit ''/'')"
  shows "replace_slashes ins pre (A @ lit ''/'') post = A @ ins"
  using assms
  by (auto simp add: rel_attr_quotes_def lit_Cons lit_Nil rel_slash_here_def rel_tail_def
      endsWith_def cu_eq_iff sq_cu dq_cu)

lemma rel_scan:
  assumes "dollar \<notin> set protocol'" and "dollar \<notin> set host'" and "dollar \<notin> set origin'"
  shows "\<not> straddles rel_attr_quotes rel_tail pre s
    \<Longrightarrow> replace_from rel_regex
          (lit ''$1'' @ protocol' @ lit ''//'' @ host' @ lit ''/'' @ origin' @ lit ''/'') pre s
        = replace_slashes (protocol' @ lit ''//'' @ host' @ lit ''/'' @ origin' @ lit ''/'') pre s []"
proof (induction "length s" arbitrary: s pre rule: less_induct)
  case less
  let ?t = "lit ''$1'' @ protocol' @ lit ''//'' @ host' @ lit ''/'' @ origin' @ lit ''/''"
  let ?ins = "protocol' @ lit ''//'' @ host' @ lit ''/'' @ origin' @ lit ''/''"
  show ?case
  proof (cases "match_at rel_regex (length pre) s")
    case None
    show ?thesis
    proof (cases s)
      case Nil
      with None show ?thesis by (simp del: replace_from.simps add: replace_from_Nil)
    next
      case (Cons c cs)
      have h: "\<not> rel_slash_here pre (c # cs)"
        using straddles_here[OF less.prems rel_attr_quotes_props(1)] Cons
        by (simp add: rel_slash_here_def)
      have "\<not> straddles rel_attr_quotes rel_tail (pre @ [c]) cs"
        using straddles_step[of rel_attr_quotes rel_tail pre c cs] less.prems rel_no_match[OF None] Cons
        by simp
      then have "replace_from rel_regex ?t (pre @ [c]) cs = replace_slashes ?ins (pre @ [c]) cs []"
        using less.hyps[of cs "pre @ [c]"] Cons by simp
      then show ?thesis
        using None Cons h by (simp del: replace_from.simps add: replace_from_skip)
    qed
  next
    case (Some a)
    then obtain n cs where m: "match_at rel_regex (length pre) s = Some (n, cs)"
      by (cases a) auto
    from rel_match_cases[OF m] obtain A where A: "A \<in> set rel_attr_quotes"
      and sw: "startsWith s (A @ lit ''/'')"
      and la: "\<not> startsWith (drop (Suc (length A)) s) (lit ''/'')"
      and n: "n = Suc (length A)" and c: "capture cs 1 = A"
      by blast
    let ?m = "A @ lit ''/''"
    let ?r = "drop n s"
    have lm: "length ?m = n"
      using n by (simp add: lit_def)
    have s: "s = ?m @ ?r"
      using startsWith_decomp[OF sw] lm by simp
    have n0: "0 < n" "s \<noteq> []"
      using n s by (auto simp: lit_def)
    have tk: "take n s = ?m"
      using startsWith_take[OF sw] lm by simp
    have "\<not> straddles rel_attr_quotes rel_tail ((pre @ A) @ [cu CHR ''/'']) ?r"
      by (rule straddles_after[OF rel_attr_quotes_props(2)])
    then have "\<not> straddles rel_attr_quotes rel_tail (pre @ ?m) ?r"
      by (simp add: lit_def)
    moreover have "length ?r < length s"
      using n0 by simp
    ultimately have ih: "replace_from rel_regex ?t (pre @ ?m) ?r = replace_slashes ?ins (pre @ ?m) ?r []"
      using less.hyps[of ?r "pre @ ?m"] by simp
    have la': "\<not> startsWith (?r @ []) (lit ''/'')"
      using la n by simp
    have "replace_from rel_regex ?t pre s
        = subst 2 cs ?m pre ?r ?t @ replace_from rel_regex ?t (pre @ ?m) ?r"
      using replace_from_match[OF m n0, of ?t] by (simp only: tk ngroups_rel_regex)
    also have "\<dots> = (A @ ?ins) @ replace_slashes ?ins (pre @ ?m) ?r []"
      unfolding ih rel_template[OF assms] c by simp
    also have "\<dots> = replace_slashes ?ins pre (?m @ ?r) []"
      unfolding replace_slashes_append[of ?ins pre ?m ?r "[]"]
        replace_over_rel_match[OF A la'] by simp
    finally show ?thesis
      using s by simp
  qed
qed

lemma rewriteAbsolute_positions:
  assumes "dollar \<notin> set protocol'" and "dollar \<notin> set host'"
  shows "rewriteAbsolute text protocol' host'
       = insert_before_urls (protocol' @ lit ''//'' @ host' @ lit ''/'') [] text []"
  unfolding rewriteAbsolute_def replace_all_def
  by (rule abs_scan[OF assms straddles_start[OF abs_attr_quotes_props(1)]])

lemma replaceRelativePaths_positions:
  assumes "dollar \<notin> set protocol'" and "dollar \<notin> set host'" and "dollar \<notin> set origin'"
  shows "replaceRelativePaths text protocol' host' origin'
       = replace_slashes (protocol' @ lit ''//'' @ host' @ lit ''/'' @ origin' @ lit ''/'') [] text []"
  unfolding replaceRelativePaths_def replace_all_def
  by (rule rel_scan[OF assms straddles_start[OF rel_attr_quotes_props(1)]])
lemma includes_str_append: "includes_str (a @ w @ b) w"
proof (induction a)
  case Nil
  show ?case
    using startsWith_prefix[of w b] by (cases "w @ b") auto
next
  case (Cons c a)
  then show ?case by simp
qed

lemma includes_str_decomp: "includes_str s w \<Longrightarrow> \<exists>a b. s = a @ w @ b"
proof (induction s)
  case Nil
  then show ?case by simp
next
  case (Cons c s)
  show ?case
  proof (cases "startsWith (c # s) w")
    case True
    then have "c # s = [] @ w @ drop (length w) (c # s)"
      using startsWith_decomp by fastforce
    then show ?thesis by blast
  next
    case False
    with Cons obtain a b where "s = a @ w @ b" by auto
    then have "c # s = (c # a) @ w @ b" by simp
    then show ?thesis by blast
  qed
qed


lemma abs_url_here_after: "c \<noteq> dq \<Longrightarrow> \<not> abs_url_here (pre @ [c]) s"
  by (auto simp: abs_url_here_def abs_attr_quotes_def endsWith_def lit_def dq_cu)

lemma insert_before_urls_plain:
  "dq \<notin> set w \<Longrightarrow> c \<noteq> dq \<Longrightarrow> insert_before_urls ins (pre @ [c]) w post = w"
proof (induction w arbitrary: pre c)
  case Nil
  show ?case by simp
next
  case (Cons a w)
  then have "insert_before_urls ins ((pre @ [c]) @ [a]) w post = w"
    by (intro Cons.IH) auto
  with Cons.prems show ?case
    by (simp add: abs_url_here_after)
qed

lemma insert_before_urls_keeps:
  assumes "dq \<notin> set w"
  shows "\<exists>x. insert_before_urls ins pre w post = x @ w"
proof (cases w)
  case Nil
  then show ?thesis by simp
next
  case (Cons c cs)
  with assms have "dq \<notin> set cs" and "c \<noteq> dq"
    by auto
  then have "insert_before_urls ins (pre @ [c]) cs post = cs"
    by (rule insert_before_urls_plain)
  with Cons show ?thesis by simp
qed

lemma replace_slashes_keeps:
  "cu CHR ''/'' \<notin> set w \<Longrightarrow> replace_slashes ins pre w post = w"
  by (induction w arbitrary: pre) (auto simp: rel_slash_here_def rel_tail_def lit_Cons)

lemma insert_before_urls_includes:
  assumes "includes_str s w" and "dq \<notin> set w"
  shows "includes_str (insert_before_urls ins pre s post) w"
proof -
  from assms(1) obtain a b where s: "s = a @ w @ b"
    using includes_str_decomp by blast
  obtain x where "insert_before_urls ins (pre @ a) w (b @ post) = x @ w"
    using insert_before_urls_keeps[OF assms(2)] by blast
  then have "insert_before_urls ins pre s post
      = (insert_before_urls ins pre a (w @ b @ post) @ x) @ w @ insert_before_urls ins (pre @ a @ w) b post"
    unfolding s by (simp add: insert_before_urls_append)
  then show ?thesis
    by (simp only: includes_str_append)
qed

lemma replace_slashes_includes:
  assumes "includes_str s w" and "cu CHR ''/'' \<notin> set w"
  shows "includes_str (replace_slashes ins pre s post) w"
proof -
  from assms(1) obtain a b where s: "s = a @ w @ b"
    using includes_str_decomp by blast
  have "replace_slashes ins pre s post
      = replace_slashes ins pre a (w @ b @ post) @ w @ replace_slashes ins (pre @ a @ w) b post"
    unfolding s by (simp add: replace_slashes_append replace_slashes_keeps[OF assms(2)])
  then show ?thesis
    by (simp only: includes_str_append)
qed

subsection \<open>Text that no match can touch\<close>








subsection \<open>Reading the error body as JSON\<close>

















subsection \<open>Quotes\<close>

lemma handleHtmlContent_decoded:
  assumes "arrayBuffer (body resp) = Inr buf" and "urlParse p target = Some u"
  shows "handleHtmlContent p resp protocol' host' target
       = Inr (replaceRelativePaths (rewriteAbsolute (decoded_text p buf) protocol' host')
                protocol' host' (origin u))"
  using assms by (simp add: handleHtmlContent_def decoded_text_def Let_def)

lemma split_three:
  assumes "\<And>pre u v post. f pre (u @ v) post = f pre u (v @ post) @ f (pre @ u) v post"
  shows "f [] (x @ y @ z) [] = f [] x (y @ z) @ f x y z @ f (x @ y) z []"
  using assms[of "[]" x "y @ z" "[]"] assms[of x y z "[]"] by simp

lemma insert_before_urls_single_quoted:
  assumes "attr \<in> {lit ''href'', lit ''src''}" and "sch \<in> {lit ''http://'', lit ''https://''}"
  shows "insert_before_urls ins pre (attr @ lit ''='' @ [sq] @ sch) post = attr @ lit ''='' @ [sq] @ sch"
  using assms
  by (auto simp add: lit_Cons lit_Nil abs_url_here_def abs_tail_def abs_attr_quotes_def
      endsWith_def cu_eq_iff sq_cu)

lemma replace_slashes_single_quoted:
  assumes "attr \<in> {lit ''href'', lit ''src''}" and "sch \<in> {lit ''http://'', lit ''https://''}"
  shows "replace_slashes ins pre (attr @ lit ''='' @ [sq] @ sch) post = attr @ lit ''='' @ [sq] @ sch"
  using assms
  by (auto simp add: lit_Cons lit_Nil rel_slash_here_def rel_tail_def rel_attr_quotes_def
      endsWith_def cu_eq_iff sq_cu)

lemma insert_before_urls_rel_match:
  assumes "A \<in> set rel_attr_quotes"
  shows "insert_before_urls ins pre (A @ lit ''/'') post = A @ lit ''/''"
  using assms
  by (auto simp add: rel_attr_quotes_def lit_Cons lit_Nil abs_url_here_def abs_tail_def
      cu_eq_iff sq_cu dq_cu)

lemma insert_before_urls_after_slash:
  assumes "\<not> startsWith b (lit ''/'')"
  shows "\<not> startsWith (insert_before_urls ins (pre @ lit ''/'') b post) (lit ''/'')"
proof (cases b)
  case Nil
  then show ?thesis by (simp add: lit_Cons lit_Nil)
next
  case (Cons c cs)
  have "cu CHR ''/'' \<noteq> dq"
    by (simp add: dq_cu cu_eq_iff)
  then have "\<not> abs_url_here (pre @ [cu CHR ''/'']) (c # cs @ post)"
    by (rule abs_url_here_after)
  with Cons assms show ?thesis
    by (simp add: lit_Cons lit_Nil)
qed

lemma rewritings_single_quoted:
  assumes "dollar \<notin> set protocol'" and "dollar \<notin> set host'" and "dollar \<notin> set origin'"
    and "attr \<in> {lit ''href'', lit ''src''}" and "sch \<in> {lit ''http://'', lit ''https://''}"
  shows "replaceRelativePaths (rewriteAbsolute (a @ attr @ lit ''='' @ [sq] @ sch @ b) protocol' host')
           protocol' host' origin'
       = replace_slashes (protocol' @ lit ''//'' @ host' @ lit ''/'' @ origin' @ lit ''/'') []
           (insert_before_urls (protocol' @ lit ''//'' @ host' @ lit ''/'') [] a
              (attr @ lit ''='' @ [sq] @ sch @ b))
           (attr @ lit ''='' @ [sq] @ sch
            @ insert_before_urls (protocol' @ lit ''//'' @ host' @ lit ''/'')
                (a @ attr @ lit ''='' @ [sq] @ sch) b [])
         @ attr @ lit ''='' @ [sq] @ sch
         @ replace_slashes (protocol' @ lit ''//'' @ host' @ lit ''/'' @ origin' @ lit ''/'')
             (insert_before_urls (protocol' @ lit ''//'' @ host' @ lit ''/'') [] a
                (attr @ lit ''='' @ [sq] @ sch @ b)
              @ attr @ lit ''='' @ [sq] @ sch)
             (insert_before_urls (protocol' @ lit ''//'' @ host' @ lit ''/'')
                (a @ attr @ lit ''='' @ [sq] @ sch) b [])
             []"
proof -
  let ?ins = "protocol' @ lit ''//'' @ host' @ lit ''/''"
  let ?ins' = "protocol' @ lit ''//'' @ host' @ lit ''/'' @ origin' @ lit ''/''"
  let ?m = "attr @ lit ''='' @ [sq] @ sch"
  let ?X = "insert_before_urls ?ins [] a (?m @ b)"
  let ?Y = "insert_before_urls ?ins (a @ ?m) b []"
  have m1: "insert_before_urls ?ins pre ?m post = ?m" for pre post
    using assms(4,5) by (rule insert_before_urls_single_quoted)
  have m2: "replace_slashes ?ins' pre ?m post = ?m" for pre post
    using assms(4,5) by (rule replace_slashes_single_quoted)
  have 1: "rewriteAbsolute (a @ ?m @ b) protocol' host' = ?X @ ?m @ ?Y"
    unfolding rewriteAbsolute_positions[OF assms(1,2)]
    using split_three[of "insert_before_urls ?ins" a ?m b] insert_before_urls_append m1 by simp
  have 2: "replaceRelativePaths (?X @ ?m @ ?Y) protocol' host' origin'
       = replace_slashes ?ins' [] ?X (?m @ ?Y) @ ?m @ replace_slashes ?ins' (?X @ ?m) ?Y []"
    unfolding replaceRelativePaths_positions[OF assms(1,2,3)]
    using split_three[of "replace_slashes ?ins'" ?X ?m ?Y] replace_slashes_append m2 by simp
  have "replaceRelativePaths (rewriteAbsolute (a @ ?m @ b) protocol' host') protocol' host' origin'
       = replace_slashes ?ins' [] ?X (?m @ ?Y) @ ?m @ replace_slashes ?ins' (?X @ ?m) ?Y []"
    unfolding 1 by (rule 2)
  then show ?thesis
    by simp
qed

lemma rewritings_root_relative:
  assumes "dollar \<notin> set protocol'" and "dollar \<notin> set host'" and "dollar \<notin> set origin'"
    and "attr \<in> {lit ''href'', lit ''src'', lit ''action''}" and "q \<in> {dq, sq}"
    and "\<not> startsWith b (lit ''/'')"
  shows "replaceRelativePaths (rewriteAbsolute (a @ attr @ lit ''='' @ [q] @ lit ''/'' @ b) protocol' host')
           protocol' host' origin'
       = replace_slashes (protocol' @ lit ''//'' @ host' @ lit ''/'' @ origin' @ lit ''/'') []
           (insert_before_urls (protocol' @ lit ''//'' @ host' @ lit ''/'') [] a
              (attr @ lit ''='' @ [q] @ lit ''/'' @ b))
           (attr @ lit ''='' @ [q] @ lit ''/''
            @ insert_before_urls (protocol' @ lit ''//'' @ host' @ lit ''/'')
                (a @ attr @ lit ''='' @ [q] @ lit ''/'') b [])
         @ attr @ lit ''='' @ [q] @ (protocol' @ lit ''//'' @ host' @ lit ''/'' @ origin' @ lit ''/'')
         @ replace_slashes (protocol' @ lit ''//'' @ host' @ lit ''/'' @ origin' @ lit ''/'')
             (insert_before_urls (protocol' @ lit ''//'' @ host' @ lit ''/'') [] a
                (attr @ lit ''='' @ [q] @ lit ''/'' @ b)
              @ attr @ lit ''='' @ [q] @ lit ''/'')
             (insert_before_urls (protocol' @ lit ''//'' @ host' @ lit ''/'')
                (a @ attr @ lit ''='' @ [q] @ lit ''/'') b [])
             []"
proof -
  let ?ins = "protocol' @ lit ''//'' @ host' @ lit ''/''"
  let ?ins' = "protocol' @ lit ''//'' @ host' @ lit ''/'' @ origin' @ lit ''/''"
  let ?A = "attr @ lit ''='' @ [q]"
  let ?X = "insert_before_urls ?ins [] a ((?A @ lit ''/'') @ b)"
  let ?Y = "insert_before_urls ?ins (a @ ?A @ lit ''/'') b []"
  have A: "?A \<in> set rel_attr_quotes"
    using assms(4,5) by (auto simp: rel_attr_quotes_def lit_def dq_cu)
  have m1: "insert_before_urls ?ins pre (?A @ lit ''/'') post = ?A @ lit ''/''" for pre post
    using A by (rule insert_before_urls_rel_match)
  have Y: "\<not> startsWith ?Y (lit ''/'')"
    using insert_before_urls_after_slash[OF assms(6), of ?ins "a @ ?A" "[]"] by simp
  have m3: "replace_slashes ?ins' pre (?A @ lit ''/'') ?Y = ?A @ ?ins'" for pre
    using replace_over_rel_match[OF A Y] .
  have 1: "rewriteAbsolute (a @ (?A @ lit ''/'') @ b) protocol' host' = ?X @ (?A @ lit ''/'') @ ?Y"
    unfolding rewriteAbsolute_positions[OF assms(1,2)]
    using split_three[of "insert_before_urls ?ins" a "?A @ lit ''/''" b] insert_before_urls_append m1
    by simp
  have 2: "replaceRelativePaths (?X @ (?A @ lit ''/'') @ ?Y) protocol' host' origin'
       = replace_slashes ?ins' [] ?X ((?A @ lit ''/'') @ ?Y) @ (?A @ ?ins')
         @ replace_slashes ?ins' (?X @ ?A @ lit ''/'') ?Y []"
    unfolding replaceRelativePaths_positions[OF assms(1,2,3)]
    using split_three[of "replace_slashes ?ins'" ?X "?A @ lit ''/''" ?Y] replace_slashes_append m3
    by simp
  have "replaceRelativePaths (rewriteAbsolute (a @ (?A @ lit ''/'') @ b) protocol' host')
          protocol' host' origin'
       = replace_slashes ?ins' [] ?X ((?A @ lit ''/'') @ ?Y) @ (?A @ ?ins')
         @ replace_slashes ?ins' (?X @ ?A @ lit ''/'') ?Y []"
    unfolding 1 by (rule 2)
  then show ?thesis
    by simp
qed
section \<open>Header filtering and the dispatched request\<close>

text \<open>
  C1. The request that the handler constructs for the target carries no header whose
  name starts with \<open>cf-\<close>, but the request that \<open>fetch\<close> dispatches does: its second
  argument \<open>{headers: request.headers}\<close> replaces the filtered headers by all the
  inbound ones. For an inbound request with the headers \<open>accept\<close> and
  \<open>cf-connecting-ip\<close>, the constructed request has the header \<open>accept\<close> alone and the
  dispatched request has both.
\<close>

theorem C1_dispatch_keeps_cf_header:
  "modifiedRequest example_platform
     (get_request ''https://proxy.example/https://example.com/''
        [(lit ''accept'', lit ''*/*''), (lit ''cf-connecting-ip'', lit ''203.0.113.7'')])
     (lit ''https://example.com/'')
   = Inr \<lparr>headers = [(lit ''accept'', lit ''*/*'')],
          body = NullBody, url = lit ''https://example.com/'', req_method = lit ''GET'',
          redirect = Manual\<rparr>
   \<and>
   fetched_request example_platform
     (get_request ''https://proxy.example/https://example.com/''
        [(lit ''accept'', lit ''*/*''), (lit ''cf-connecting-ip'', lit ''203.0.113.7'')])
     (lit ''https://example.com/'')
   = Inr \<lparr>headers = [(lit ''accept'', lit ''*/*''),
                      (lit ''cf-connecting-ip'', lit ''203.0.113.7'')],
          body = NullBody, url = lit ''https://example.com/'', req_method = lit ''GET'',
          redirect = Manual\<rparr>"
  by code_simp

section \<open>Cache and CORS headers\<close>

text \<open>
  C2, as the specification states it, fails: the landing page is returned with its
  content type as the only header, without \<open>Cache-Control\<close> and without
  \<open>Access-Control-Allow-Origin\<close>.
\<close>

theorem C2_landing_page_counterexample:
  "handleRequest example_platform (get_request ''https://proxy.example/'' [])
   = Inr \<lparr>headers = [(lit ''content-type'', lit ''text/html; charset=utf-8'')],
          body = TextBody (lit ''<h1>proxy</h1>''), status = 200, statusText = lit ''OK''\<rparr>
   \<and> hget [(lit ''content-type'', lit ''text/html; charset=utf-8'')] (lit ''Cache-Control'') = None
   \<and> hget [(lit ''content-type'', lit ''text/html; charset=utf-8'')]
        (lit ''Access-Control-Allow-Origin'') = None"
  by code_simp

text \<open>
  C2, amended. When the path designates a target, the target answers with a status that
  is not a redirect, and no stage fails, the response returned (the pass-through or the
  rewritten HTML) carries \<open>Cache-Control: no-store\<close> and
  \<open>Access-Control-Allow-Origin: *\<close>.
\<close>

theorem C2_proxied_response_headers:
  assumes "urlParse p (url rq) = Some u"
    and "pathname u \<noteq> lit ''/''"
    and "regex_test path_regex (pathname u)"
    and "actualUrlStr u = Inr t"
    and "fetched_response p rq t = Inr resp"
    and "status resp \<notin> set redirect_statuses"
    and "modifiedResponse p u t resp = Inr r"
  shows "handleRequest p rq = Inr r
       \<and> hget (headers r) (lit ''Cache-Control'') = Some (lit ''no-store'')
       \<and> hget (headers r) (lit ''Access-Control-Allow-Origin'') = Some (lit ''*'')"
proof -
  have "try_block p rq = Inr r"
    using assms by (simp add: try_block_proxied)
  then have "handleRequest p rq = Inr r"
    by (simp add: handleRequest_def)
  with modifiedResponse_headers[OF assms(7)] show ?thesis
    by simp
qed

text \<open>
  Two cases: the HTML page of the example origin that has not been modified (status 304,
  no body: the rewritten text is empty and the response is returned without a body), and
  the JSON document, passed through.
\<close>

theorem C2_proxied_response_headers_witness:
  "handleRequest example_platform (get_request ''https://proxy.example/https://example.com/cached'' [])
   = Inr \<lparr>headers = [(lit ''content-type'', lit ''text/html; charset=utf-8''),
                      (lit ''cache-control'', lit ''no-store''),
                      (lit ''access-control-allow-origin'', lit ''*''),
                      (lit ''access-control-allow-methods'', lit ''GET, POST, PUT, DELETE''),
                      (lit ''access-control-allow-headers'', lit ''*'')],
          body = NullBody, status = 304, statusText = lit ''Not Modified''\<rparr>
   \<and> handleRequest example_platform (get_request ''https://proxy.example/https://example.com/data'' [])
   = Inr \<lparr>headers = [(lit ''content-type'', lit ''application/json''),
                      (lit ''cache-control'', lit ''no-store''),
                      (lit ''access-control-allow-origin'', lit ''*''),
                      (lit ''access-control-allow-methods'', lit ''GET, POST, PUT, DELETE''),
                      (lit ''access-control-allow-headers'', lit ''*'')],
          body = StreamBody (ascii_bytes ''{}'') None, status = 200, statusText = lit ''OK''\<rparr>
   \<and> hget [(lit ''content-type'', lit ''text/html; charset=utf-8''),
            (lit ''cache-control'', lit ''no-store''),
            (lit ''access-control-allow-origin'', lit ''*''),
            (lit ''access-control-allow-methods'', lit ''GET, POST, PUT, DELETE''),
            (lit ''access-control-allow-headers'', lit ''*'')] (lit ''Cache-Control'')
       = Some (lit ''no-store'')
   \<and> hget [(lit ''content-type'', lit ''text/html; charset=utf-8''),
            (lit ''cache-control'', lit ''no-store''),
            (lit ''access-control-allow-origin'', lit ''*''),
            (lit ''access-control-allow-methods'', lit ''GET, POST, PUT, DELETE''),
            (lit ''access-control-allow-headers'', lit ''*'')] (lit ''Access-Control-Allow-Origin'')
       = Some (lit ''*'')"
proof -
  let ?rq = "get_request ''https://proxy.example/https://example.com/cached'' []"
  let ?u = "http_url ''https:'' ''proxy.example'' ''/https://example.com/cached'' []"
  let ?t = "lit ''https://example.com/cached''"
  let ?resp = "\<lparr>headers = [(lit ''content-type'', lit ''text/html; charset=utf-8'')],
                body = NullBody, status = 304, statusText = lit ''Not Modified''\<rparr>"
  let ?r = "\<lparr>headers = [(lit ''content-type'', lit ''text/html; charset=utf-8''),
                      (lit ''cache-control'', lit ''no-store''),
                      (lit ''access-control-allow-origin'', lit ''*''),
                      (lit ''access-control-allow-methods'', lit ''GET, POST, PUT, DELETE''),
                      (lit ''access-control-allow-headers'', lit ''*'')],
          body = NullBody, status = 304, statusText = lit ''Not Modified''\<rparr>"
  have 1: "urlParse example_platform (url ?rq) = Some ?u" by code_simp
  have 2: "pathname ?u \<noteq> lit ''/''" by code_simp
  have 3: "regex_test path_regex (pathname ?u)" by code_simp
  have 4: "actualUrlStr ?u = Inr ?t" by code_simp
  have 5: "fetched_response example_platform ?rq ?t = Inr ?resp" by code_simp
  have 6: "status ?resp \<notin> set redirect_statuses" by code_simp
  have 7: "modifiedResponse example_platform ?u ?t ?resp = Inr ?r" by code_simp
  let ?rq' = "get_request ''https://proxy.example/https://example.com/data'' []"
  let ?u' = "http_url ''https:'' ''proxy.example'' ''/https://example.com/data'' []"
  let ?t' = "lit ''https://example.com/data''"
  let ?resp' = "\<lparr>headers = [(lit ''content-type'', lit ''application/json'')],
                body = StreamBody (ascii_bytes ''{}'') None,
                status = 200, statusText = lit ''OK''\<rparr>"
  let ?r' = "\<lparr>headers = [(lit ''content-type'', lit ''application/json''),
                      (lit ''cache-control'', lit ''no-store''),
                      (lit ''access-control-allow-origin'', lit ''*''),
                      (lit ''access-control-allow-methods'', lit ''GET, POST, PUT, DELETE''),
                      (lit ''access-control-allow-headers'', lit ''*'')],
          body = StreamBody (ascii_bytes ''{}'') None, status = 200, statusText = lit ''OK''\<rparr>"
  have 11: "urlParse example_platform (url ?rq') = Some ?u'" by code_simp
  have 12: "pathname ?u' \<noteq> lit ''/''" by code_simp
  have 13: "regex_test path_regex (pathname ?u')" by code_simp
  have 14: "actualUrlStr ?u' = Inr ?t'" by code_simp
  have 15: "fetched_response example_platform ?rq' ?t' = Inr ?resp'" by code_simp
  have 16: "status ?resp' \<notin> set redirect_statuses" by code_simp
  have 17: "modifiedResponse example_platform ?u' ?t' ?resp' = Inr ?r'" by code_simp
  from C2_proxied_response_headers[OF 1 2 3 4 5 6 7]
    C2_proxied_response_headers[OF 11 12 13 14 15 16 17]
  show ?thesis
    by simp
qed
section \<open>The redirect rewriter\<close>

text \<open>
  C3. \<open>handleRedirect\<close> keeps the body, the status and the status text of a redirect,
  but not its headers: for a 302 response with the headers \<open>location\<close> and
  \<open>set-cookie\<close>, the response returned has the rewritten \<open>location\<close> header and no
  other header.
\<close>

theorem C3_redirect_drops_headers:
  "handleRedirect example_platform
     \<lparr>headers = [(lit ''location'', lit ''https://example.com/bar''),
                 (lit ''set-cookie'', lit ''sid=1'')],
      body = NullBody, status = 302, statusText = lit ''Found''\<rparr> NullBody
   = Inr \<lparr>headers = [(lit ''location'', lit ''/https%3A%2F%2Fexample.com%2Fbar'')],
          body = NullBody, status = 302, statusText = lit ''Found''\<rparr>"
  by code_simp

section \<open>Root-relative links\<close>

text \<open>
  C4, as the specification states it, fails: the rewritten \<open>img\<close> element does not have
  a double slash after the origin.
\<close>

theorem C4_double_slash_counterexample:
  "replaceRelativePaths (lit ''<img src=\"/logo.png\">'')
     (lit ''https:'') (lit ''proxy.example'') (lit ''https://example.com'')
   \<noteq> lit ''<img src=\"https://proxy.example/https://example.com//logo.png\">''"
  by code_simp

text \<open>
  C4, amended. The leading slash of a root-relative link is part of the match and is
  replaced with it: when the protocol, the host and the origin contain no \<open>$\<close>,
  \<open>replaceRelativePaths\<close> puts \<open>{protocol}//{host}/{origin}/\<close> in the place of every
  slash that follows \<open>href=\<close>, \<open>src=\<close> or \<open>action=\<close> and a quote and is not
  followed by a second slash, and copies every other character. For HTML fetched from
  the origin \<open>https://example.com\<close> through a proxy at \<open>https://proxy.example\<close>,
  \<open><img src="/logo.png">\<close> becomes
  \<open><img src="https://proxy.example/https://example.com/logo.png">\<close>, with a single
  slash after the origin.
\<close>

theorem C4_root_relative_single_slash:
  assumes "dollar \<notin> set protocol'" and "dollar \<notin> set host'" and "dollar \<notin> set origin'"
  shows "replaceRelativePaths text protocol' host' origin'
       = replace_slashes (protocol' @ lit ''//'' @ host' @ lit ''/'' @ origin' @ lit ''/'') [] text []"
  using assms by (rule replaceRelativePaths_positions)

text \<open>The example of the specification, by way of the theorem.\<close>

theorem C4_root_relative_single_slash_witness:
  "replaceRelativePaths (lit ''<img src=\"/logo.png\">'')
     (lit ''https:'') (lit ''proxy.example'') (lit ''https://example.com'')
   = lit ''<img src=\"https://proxy.example/https://example.com/logo.png\">''"
proof -
  have 1: "dollar \<notin> set (lit ''https:'')" by code_simp
  have 2: "dollar \<notin> set (lit ''proxy.example'')" by code_simp
  have 3: "dollar \<notin> set (lit ''https://example.com'')" by code_simp
  have 4: "replace_slashes
             (lit ''https:'' @ lit ''//'' @ lit ''proxy.example'' @ lit ''/''
                @ lit ''https://example.com'' @ lit ''/'')
             [] (lit ''<img src=\"/logo.png\">'') []
           = lit ''<img src=\"https://proxy.example/https://example.com/logo.png\">''"
    by code_simp
  from C4_root_relative_single_slash[OF 1 2 3, of "lit ''<img src=\"/logo.png\">''"] show ?thesis
    unfolding 4 .
qed

section \<open>The search redirect\<close>

text \<open>
  C5, as the specification states it, fails: the path \<open>/https%3A%2F%2Fexample.com\<close> is
  not the root path and does not match \<open>^/https?(:%2F%2F|://)\<close>, yet the handler
  proxies the request to \<open>https://example.com\<close> and answers 200.
\<close>

theorem C5_encoded_colon_counterexample:
  "map_option pathname (urlParse example_platform
       (url (get_request ''https://proxy.example/https%3A%2F%2Fexample.com'' [])))
     = Some (lit ''/https%3A%2F%2Fexample.com'')
   \<and> \<not> regex_test spec_path_regex (lit ''/https%3A%2F%2Fexample.com'')
   \<and> handleRequest example_platform
         (get_request ''https://proxy.example/https%3A%2F%2Fexample.com'' [])
       = Inr \<lparr>headers = [(lit ''content-type'', lit ''text/html; charset=utf-8''),
                          (lit ''cache-control'', lit ''no-store''),
                          (lit ''access-control-allow-origin'', lit ''*''),
                          (lit ''access-control-allow-methods'', lit ''GET, POST, PUT, DELETE''),
                          (lit ''access-control-allow-headers'', lit ''*'')],
              body = TextBody (lit ''<a href=/>home</a>''), status = 200,
              statusText = lit ''OK''\<rparr>"
  by code_simp

text \<open>
  C5, amended. For every inbound request whose path is not the root path and starts
  with none of \<open>/http%3A%2F%2F\<close>, \<open>/https%3A%2F%2F\<close>, \<open>/http:/\<close> and
  \<open>/https:/\<close>, the handler returns a 302 response whose \<open>Location\<close> header is
  the protocol, \<open>//\<close>, the host, \<open>/https://www.bing.com/search?q=\<close> and the path
  without its first character. The response has no other header and no body, and its
  status text is the reason phrase of 302.
\<close>

theorem C5_search_redirect:
  assumes "urlParse p (url rq) = Some u"
    and "pathname u \<noteq> lit ''/''"
    and "\<not> startsWith (pathname u) (lit ''/http%3A%2F%2F'')"
    and "\<not> startsWith (pathname u) (lit ''/https%3A%2F%2F'')"
    and "\<not> startsWith (pathname u) (lit ''/http:/'')"
    and "\<not> startsWith (pathname u) (lit ''/https:/'')"
  shows "handleRequest p rq
       = Inr \<lparr>headers = [(lit ''location'',
                  protocol u @ lit ''//'' @ host u @ lit ''/https://www.bing.com/search?q=''
                    @ drop 1 (pathname u))],
              body = NullBody, status = 302, statusText = reasonPhrase p 302\<rparr>"
proof -
  have "\<not> regex_test path_regex (pathname u)"
    using assms(3-6) by (simp add: regex_test_path_regex)
  moreover have "lower (lit ''Location'') = lit ''location''"
    by code_simp
  ultimately have "try_block p rq
       = Inr \<lparr>headers = [(lit ''location'',
                  protocol u @ lit ''//'' @ host u @ lit ''/https://www.bing.com/search?q=''
                    @ drop 1 (pathname u))],
              body = NullBody, status = 302, statusText = reasonPhrase p 302\<rparr>"
    using assms(1,2)
    by (simp add: try_block_def new_Response_def null_body_status_def new_Headers_def slice1_def)
  then show ?thesis
    by (simp add: handleRequest_def)
qed

text \<open>The path \<open>/hello\<close> is answered by a redirect to the search for \<open>hello\<close>.\<close>

theorem C5_search_redirect_witness:
  "urlParse example_platform (url (get_request ''https://proxy.example/hello'' []))
     = Some (http_url ''https:'' ''proxy.example'' ''/hello'' [])
   \<and> handleRequest example_platform (get_request ''https://proxy.example/hello'' [])
     = Inr \<lparr>headers = [(lit ''location'',
                lit ''https://proxy.example/https://www.bing.com/search?q=hello'')],
            body = NullBody, status = 302, statusText = lit ''Found''\<rparr>"
proof -
  let ?rq = "get_request ''https://proxy.example/hello'' []"
  let ?u = "http_url ''https:'' ''proxy.example'' ''/hello'' []"
  have 1: "urlParse example_platform (url ?rq) = Some ?u" by code_simp
  have 2: "pathname ?u \<noteq> lit ''/''" by code_simp
  have 3: "\<not> startsWith (pathname ?u) (lit ''/http%3A%2F%2F'')" by code_simp
  have 4: "\<not> startsWith (pathname ?u) (lit ''/https%3A%2F%2F'')" by code_simp
  have 5: "\<not> startsWith (pathname ?u) (lit ''/http:/'')" by code_simp
  have 6: "\<not> startsWith (pathname ?u) (lit ''/https:/'')" by code_simp
  have 7: "protocol ?u @ lit ''//'' @ host ?u @ lit ''/https://www.bing.com/search?q=''
             @ drop 1 (pathname ?u)
           = lit ''https://proxy.example/https://www.bing.com/search?q=hello''"
    by code_simp
  have 8: "reasonPhrase example_platform 302 = lit ''Found''"
    by code_simp
  from C5_search_redirect[OF 1 2 3 4 5 6] 1 show ?thesis
    unfolding 7 8 by simp
qed

section \<open>Absolute links\<close>




section \<open>The rewritten location\<close>

text \<open>
  C7, as the specification states it, fails: decoding the rewritten location gives the
  serialisation of the parsed URL, which is not always the original header. The location
  \<open>https://example.com\<close> is rewritten to \<open>/https%3A%2F%2Fexample.com%2F\<close>, and
  decoding what follows the slash gives \<open>https://example.com/\<close>.
\<close>

theorem C7_normalised_location_counterexample:
  "handleRedirect example_platform
     \<lparr>headers = [(lit ''location'', lit ''https://example.com'')],
      body = NullBody, status = 302, statusText = lit ''Found''\<rparr> NullBody
   = Inr \<lparr>headers = [(lit ''location'', lit ''/https%3A%2F%2Fexample.com%2F'')],
          body = NullBody, status = 302, statusText = lit ''Found''\<rparr>
   \<and> decodeURIComponent (drop 1 (lit ''/https%3A%2F%2Fexample.com%2F''))
       = Some (lit ''https://example.com/'')
   \<and> lit ''https://example.com/'' \<noteq> lit ''https://example.com''"
  by code_simp

text \<open>
  C7, amended. For every redirect response whose \<open>Location\<close> header parses as a URL
  (whose serialisation percent-encodes, as every serialisation of a URL does), the
  redirect rewriter sets the \<open>Location\<close> of the response it returns to \<open>/\<close>
  followed by the percent-encoding of the serialised URL, and percent-decoding the value
  after the leading \<open>/\<close> gives the serialised URL back.
\<close>

theorem C7_location_round_trip:
  assumes "status resp \<in> set redirect_statuses"
    and "hget (headers resp) (lit ''location'') = Some l"
    and "urlParse p l = Some u"
    and "encodeURIComponent (href u) = Some enc"
  shows "\<exists>r. handleRedirect p resp b = Inr r
           \<and> hget (headers r) (lit ''Location'') = Some (lit ''/'' @ enc)
           \<and> decodeURIComponent (drop 1 (lit ''/'' @ enc)) = Some (href u)"
proof -
  have lo: "lower (lit ''Location'') = lit ''location''"
    by code_simp
  have st: "\<not> (status resp < 200 \<or> 599 < status resp)" "\<not> null_body_status (status resp)"
    using assms(1) by (auto simp: redirect_statuses_def null_body_status_def)
  have l: "(case hget (headers resp) (lit ''location'') of None \<Rightarrow> []
            | Some v \<Rightarrow> if v = [] then [] else v) = l"
    using assms(2) by simp
  have ne: "lit ''location'' \<noteq> lit ''content-type''"
    by code_simp
  have "handleRedirect p resp b
      = Inr \<lparr>headers = (case b of
                          TextBody t \<Rightarrow> [(lit ''location'', lit ''/'' @ enc),
                                         (lit ''content-type'', lit ''text/plain;charset=UTF-8'')]
                        | _ \<Rightarrow> [(lit ''location'', lit ''/'' @ enc)]),
             body = b, status = status resp, statusText = statusText resp\<rparr>"
    unfolding handleRedirect_def l Let_def using assms(3,4) st
    by (simp add: new_Response_def new_Headers_def spread_Headers_def lo hget_def values_of_def
        lower_lit_content_type ne split: body_init.splits)
  moreover have "decodeURIComponent (drop 1 (lit ''/'' @ enc)) = Some (href u)"
    using decode_encode[OF assms(4)] by (simp add: lit_def)
  ultimately show ?thesis
    using ne
    by (auto simp: hget_def values_of_def lo split: body_init.splits)
qed

text \<open>The example of the specification: the location \<open>https://example.com/bar\<close> is its own serialisation.\<close>

theorem C7_location_round_trip_witness:
  "handleRedirect example_platform
     \<lparr>headers = [(lit ''location'', lit ''https://example.com/bar'')],
      body = NullBody, status = 302, statusText = lit ''Found''\<rparr> NullBody
   = Inr \<lparr>headers = [(lit ''location'', lit ''/https%3A%2F%2Fexample.com%2Fbar'')],
          body = NullBody, status = 302, statusText = lit ''Found''\<rparr>
   \<and> decodeURIComponent (drop 1 (lit ''/https%3A%2F%2Fexample.com%2Fbar''))
       = Some (lit ''https://example.com/bar'')"
proof -
  let ?resp = "\<lparr>headers = [(lit ''location'', lit ''https://example.com/bar'')],
                body = NullBody, status = 302, statusText = lit ''Found''\<rparr>"
  let ?u = "http_url ''https:'' ''example.com'' ''/bar'' []"
  have 1: "status ?resp \<in> set redirect_statuses" by code_simp
  have 2: "hget (headers ?resp) (lit ''location'') = Some (lit ''https://example.com/bar'')"
    by code_simp
  have 3: "urlParse example_platform (lit ''https://example.com/bar'') = Some ?u" by code_simp
  have 4: "encodeURIComponent (href ?u) = Some (lit ''https%3A%2F%2Fexample.com%2Fbar'')"
    by code_simp
  have 5: "href ?u = lit ''https://example.com/bar''" by code_simp
  have 6: "lit ''/'' @ lit ''https%3A%2F%2Fexample.com%2Fbar'' = lit ''/https%3A%2F%2Fexample.com%2Fbar''"
    by code_simp
  have 7: "handleRedirect example_platform ?resp NullBody
           = Inr \<lparr>headers = [(lit ''location'', lit ''/https%3A%2F%2Fexample.com%2Fbar'')],
                  body = NullBody, status = 302, statusText = lit ''Found''\<rparr>"
    by code_simp
  from C7_location_round_trip[OF 1 2 3 4, of NullBody] show ?thesis
    unfolding 5 6 7 by simp
qed

section \<open>The GB2312 marker\<close>




section \<open>Errors\<close>



section \<open>Quotes\<close>

text \<open>
  C10, as the specification states it, fails: a single-quoted absolute link is not left
  unchanged for every body. The step that rewrites the marker \<open>charset=gb2312\<close> changes
  the link \<open><a href='https://other.com/?charset=gb2312'>\<close>, and the rewriting of
  absolute links changes a single-quoted link that contains a double-quoted one,
  \<open><a href='https://other.com/?u=href="http://y'>\<close>.
\<close>

theorem C10_single_quoted_link_changed_counterexample:
  "handleHtmlContent example_platform
     \<lparr>headers = [(lit ''content-type'', lit ''text/html'')],
      body = StreamBody
               (ascii_bytes (''<a href='' @ [CHR 0x27] @ ''https://other.com/?charset=gb2312''
                             @ [CHR 0x27] @ ''>'')) None,
      status = 200, statusText = lit ''OK''\<rparr>
     (lit ''https:'') (lit ''proxy.example'') (lit ''https://example.com/'')
   = Inr (lit ''<a href='' @ [sq] @ lit ''https://other.com/?charset=utf-8'' @ [sq] @ lit ''>'')
   \<and> handleHtmlContent example_platform
     \<lparr>headers = [(lit ''content-type'', lit ''text/html'')],
      body = StreamBody
               (ascii_bytes (''<a href='' @ [CHR 0x27] @ ''https://other.com/?u=href=\"http://y''
                             @ [CHR 0x27] @ ''>'')) None,
      status = 200, statusText = lit ''OK''\<rparr>
     (lit ''https:'') (lit ''proxy.example'') (lit ''https://example.com/'')
   = Inr (lit ''<a href='' @ [sq] @ lit ''https://other.com/?u=href=\"https://proxy.example/http://y''
          @ [sq] @ lit ''>'')"
  by code_simp

text \<open>
  C10, amended. The two rewritings treat quotes differently. Let the protocol, the host
  and the origin contain no \<open>$\<close>, and take the text that the HTML rewriter rewrites, the
  decoded body after the step that replaces the marker \<open>charset=gb2312\<close>. Wherever
  this text has \<open>href='\<close> or \<open>src='\<close> followed by \<open>http://\<close> or \<open>https://\<close>, the
  rewriter returns that part as it is and inserts nothing before the URL; the text
  before it and the text behind it, the rest of the link included, are rewritten as
  any text is, at the places where they have a double-quoted absolute link or a
  root-relative link of their own. Wherever the text has \<open>href=\<close>, \<open>src=\<close> or
  \<open>action=\<close>, a double or a single quote, and a slash that is not followed by a second
  slash, the rewriter returns the attribute and the quote followed by
  \<open>{protocol}//{host}/{origin}/\<close> in the place of the slash.
\<close>

theorem C10_quote_asymmetry:
  assumes "arrayBuffer (body resp) = Inr buf" and "urlParse p target = Some u"
    and "dollar \<notin> set protocol'" and "dollar \<notin> set host'" and "dollar \<notin> set (origin u)"
    and "attr \<in> {lit ''href'', lit ''src''}" and "sch \<in> {lit ''http://'', lit ''https://''}"
    and "attr' \<in> {lit ''href'', lit ''src'', lit ''action''}" and "q \<in> {dq, sq}"
  shows "(decoded_text p buf = a @ attr @ lit ''='' @ [sq] @ sch @ b
          \<longrightarrow> handleHtmlContent p resp protocol' host' target
              = Inr (replace_slashes (protocol' @ lit ''//'' @ host' @ lit ''/'' @ origin u @ lit ''/'') []
                       (insert_before_urls (protocol' @ lit ''//'' @ host' @ lit ''/'') [] a
                          (attr @ lit ''='' @ [sq] @ sch @ b))
                       (attr @ lit ''='' @ [sq] @ sch
                        @ insert_before_urls (protocol' @ lit ''//'' @ host' @ lit ''/'')
                            (a @ attr @ lit ''='' @ [sq] @ sch) b [])
                     @ attr @ lit ''='' @ [sq] @ sch
                     @ replace_slashes (protocol' @ lit ''//'' @ host' @ lit ''/'' @ origin u @ lit ''/'')
                         (insert_before_urls (protocol' @ lit ''//'' @ host' @ lit ''/'') [] a
                            (attr @ lit ''='' @ [sq] @ sch @ b)
                          @ attr @ lit ''='' @ [sq] @ sch)
                         (insert_before_urls (protocol' @ lit ''//'' @ host' @ lit ''/'')
                            (a @ attr @ lit ''='' @ [sq] @ sch) b [])
                         []))
     \<and> (decoded_text p buf = a @ attr' @ lit ''='' @ [q] @ lit ''/'' @ b \<and> \<not> startsWith b (lit ''/'')
          \<longrightarrow> handleHtmlContent p resp protocol' host' target
              = Inr (replace_slashes (protocol' @ lit ''//'' @ host' @ lit ''/'' @ origin u @ lit ''/'') []
                       (insert_before_urls (protocol' @ lit ''//'' @ host' @ lit ''/'') [] a
                          (attr' @ lit ''='' @ [q] @ lit ''/'' @ b))
                       (attr' @ lit ''='' @ [q] @ lit ''/''
                        @ insert_before_urls (protocol' @ lit ''//'' @ host' @ lit ''/'')
                            (a @ attr' @ lit ''='' @ [q] @ lit ''/'') b [])
                     @ attr' @ lit ''='' @ [q]
                     @ (protocol' @ lit ''//'' @ host' @ lit ''/'' @ origin u @ lit ''/'')
                     @ replace_slashes (protocol' @ lit ''//'' @ host' @ lit ''/'' @ origin u @ lit ''/'')
                         (insert_before_urls (protocol' @ lit ''//'' @ host' @ lit ''/'') [] a
                            (attr' @ lit ''='' @ [q] @ lit ''/'' @ b)
                          @ attr' @ lit ''='' @ [q] @ lit ''/'')
                         (insert_before_urls (protocol' @ lit ''//'' @ host' @ lit ''/'')
                            (a @ attr' @ lit ''='' @ [q] @ lit ''/'') b [])
                         []))"
proof (intro conjI impI)
  assume "decoded_text p buf = a @ attr @ lit ''='' @ [sq] @ sch @ b"
  then show "handleHtmlContent p resp protocol' host' target
       = Inr (replace_slashes (protocol' @ lit ''//'' @ host' @ lit ''/'' @ origin u @ lit ''/'') []
                (insert_before_urls (protocol' @ lit ''//'' @ host' @ lit ''/'') [] a
                   (attr @ lit ''='' @ [sq] @ sch @ b))
                (attr @ lit ''='' @ [sq] @ sch
                 @ insert_before_urls (protocol' @ lit ''//'' @ host' @ lit ''/'')
                     (a @ attr @ lit ''='' @ [sq] @ sch) b [])
              @ attr @ lit ''='' @ [sq] @ sch
              @ replace_slashes (protocol' @ lit ''//'' @ host' @ lit ''/'' @ origin u @ lit ''/'')
                  (insert_before_urls (protocol' @ lit ''//'' @ host' @ lit ''/'') [] a
                     (attr @ lit ''='' @ [sq] @ sch @ b)
                   @ attr @ lit ''='' @ [sq] @ sch)
                  (insert_before_urls (protocol' @ lit ''//'' @ host' @ lit ''/'')
                     (a @ attr @ lit ''='' @ [sq] @ sch) b [])
                  [])"
    unfolding handleHtmlContent_decoded[OF assms(1,2)]
    using rewritings_single_quoted[OF assms(3,4,5,6,7), of a b] by simp
next
  assume "decoded_text p buf = a @ attr' @ lit ''='' @ [q] @ lit ''/'' @ b \<and> \<not> startsWith b (lit ''/'')"
  then show "handleHtmlContent p resp protocol' host' target
       = Inr (replace_slashes (protocol' @ lit ''//'' @ host' @ lit ''/'' @ origin u @ lit ''/'') []
                (insert_before_urls (protocol' @ lit ''//'' @ host' @ lit ''/'') [] a
                   (attr' @ lit ''='' @ [q] @ lit ''/'' @ b))
                (attr' @ lit ''='' @ [q] @ lit ''/''
                 @ insert_before_urls (protocol' @ lit ''//'' @ host' @ lit ''/'')
                     (a @ attr' @ lit ''='' @ [q] @ lit ''/'') b [])
              @ attr' @ lit ''='' @ [q]
              @ (protocol' @ lit ''//'' @ host' @ lit ''/'' @ origin u @ lit ''/'')
              @ replace_slashes (protocol' @ lit ''//'' @ host' @ lit ''/'' @ origin u @ lit ''/'')
                  (insert_before_urls (protocol' @ lit ''//'' @ host' @ lit ''/'') [] a
                     (attr' @ lit ''='' @ [q] @ lit ''/'' @ b)
                   @ attr' @ lit ''='' @ [q] @ lit ''/'')
                  (insert_before_urls (protocol' @ lit ''//'' @ host' @ lit ''/'')
                     (a @ attr' @ lit ''='' @ [q] @ lit ''/'') b [])
                  [])"
    unfolding handleHtmlContent_decoded[OF assms(1,2)]
    using rewritings_root_relative[OF assms(3,4,5,8,9), of b a] by simp
qed

text \<open>
  A page with a single-quoted absolute link, which is returned as it is, and a page with
  a single-quoted root-relative link, which is rewritten.
\<close>

theorem C10_quote_asymmetry_witness:
  "handleHtmlContent example_platform
     \<lparr>headers = [(lit ''content-type'', lit ''text/html'')],
      body = StreamBody
               (ascii_bytes (''<a href='' @ [CHR 0x27] @ ''https://other.com/x'' @ [CHR 0x27] @ ''>'')) None,
      status = 200, statusText = lit ''OK''\<rparr>
     (lit ''https:'') (lit ''proxy.example'') (lit ''https://example.com/'')
   = Inr (lit ''<a href='' @ [sq] @ lit ''https://other.com/x'' @ [sq] @ lit ''>'')
   \<and> handleHtmlContent example_platform
     \<lparr>headers = [(lit ''content-type'', lit ''text/html'')],
      body = StreamBody
               (ascii_bytes (''<a href='' @ [CHR 0x27] @ ''/x'' @ [CHR 0x27] @ ''>'')) None,
      status = 200, statusText = lit ''OK''\<rparr>
     (lit ''https:'') (lit ''proxy.example'') (lit ''https://example.com/'')
   = Inr (lit ''<a href='' @ [sq] @ lit ''https://proxy.example/https://example.com/x'' @ [sq]
          @ lit ''>'')"
proof -
  let ?ins = "lit ''https:'' @ lit ''//'' @ lit ''proxy.example'' @ lit ''/''"
  let ?u = "http_url ''https:'' ''example.com'' ''/'' []"
  let ?ins' = "lit ''https:'' @ lit ''//'' @ lit ''proxy.example'' @ lit ''/'' @ origin ?u @ lit ''/''"
  let ?buf1 = "ascii_bytes (''<a href='' @ [CHR 0x27] @ ''https://other.com/x'' @ [CHR 0x27] @ ''>'')"
  let ?buf2 = "ascii_bytes (''<a href='' @ [CHR 0x27] @ ''/x'' @ [CHR 0x27] @ ''>'')"
  let ?resp1 = "\<lparr>headers = [(lit ''content-type'', lit ''text/html'')],
                 body = StreamBody ?buf1 None, status = 200, statusText = lit ''OK''\<rparr>"
  let ?resp2 = "\<lparr>headers = [(lit ''content-type'', lit ''text/html'')],
                 body = StreamBody ?buf2 None, status = 200, statusText = lit ''OK''\<rparr>"
  let ?a = "lit ''<a ''"
  let ?b = "lit ''other.com/x'' @ [sq] @ lit ''>''"
  let ?c = "lit ''x'' @ [sq] @ lit ''>''"
  have 1: "arrayBuffer (body ?resp1) = Inr ?buf1" by code_simp
  have 2: "arrayBuffer (body ?resp2) = Inr ?buf2" by code_simp
  have 3: "urlParse example_platform (lit ''https://example.com/'') = Some ?u" by code_simp
  have 4: "dollar \<notin> set (lit ''https:'')" by code_simp
  have 5: "dollar \<notin> set (lit ''proxy.example'')" by code_simp
  have 6: "dollar \<notin> set (origin ?u)" by code_simp
  have 7: "lit ''href'' \<in> {lit ''href'', lit ''src''}" by simp
  have 8: "lit ''https://'' \<in> {lit ''http://'', lit ''https://''}" by simp
  have 9: "lit ''href'' \<in> {lit ''href'', lit ''src'', lit ''action''}" by simp
  have 10: "sq \<in> {dq, sq}" by simp
  have t1: "decoded_text example_platform ?buf1
            = ?a @ lit ''href'' @ lit ''='' @ [sq] @ lit ''https://'' @ ?b"
    by code_simp
  have t2: "decoded_text example_platform ?buf2
            = ?a @ lit ''href'' @ lit ''='' @ [sq] @ lit ''/'' @ ?c \<and> \<not> startsWith ?c (lit ''/'')"
    by code_simp
  have e1: "replace_slashes ?ins' []
              (insert_before_urls ?ins [] ?a (lit ''href'' @ lit ''='' @ [sq] @ lit ''https://'' @ ?b))
              (lit ''href'' @ lit ''='' @ [sq] @ lit ''https://''
               @ insert_before_urls ?ins (?a @ lit ''href'' @ lit ''='' @ [sq] @ lit ''https://'') ?b [])
            @ lit ''href'' @ lit ''='' @ [sq] @ lit ''https://''
            @ replace_slashes ?ins'
                (insert_before_urls ?ins [] ?a (lit ''href'' @ lit ''='' @ [sq] @ lit ''https://'' @ ?b)
                 @ lit ''href'' @ lit ''='' @ [sq] @ lit ''https://'')
                (insert_before_urls ?ins (?a @ lit ''href'' @ lit ''='' @ [sq] @ lit ''https://'') ?b [])
                []
          = lit ''<a href='' @ [sq] @ lit ''https://other.com/x'' @ [sq] @ lit ''>''"
    by code_simp
  have e2: "replace_slashes ?ins' []
              (insert_before_urls ?ins [] ?a (lit ''href'' @ lit ''='' @ [sq] @ lit ''/'' @ ?c))
              (lit ''href'' @ lit ''='' @ [sq] @ lit ''/''
               @ insert_before_urls ?ins (?a @ lit ''href'' @ lit ''='' @ [sq] @ lit ''/'') ?c [])
            @ lit ''href'' @ lit ''='' @ [sq] @ ?ins'
            @ replace_slashes ?ins'
                (insert_before_urls ?ins [] ?a (lit ''href'' @ lit ''='' @ [sq] @ lit ''/'' @ ?c)
                 @ lit ''href'' @ lit ''='' @ [sq] @ lit ''/'')
                (insert_before_urls ?ins (?a @ lit ''href'' @ lit ''='' @ [sq] @ lit ''/'') ?c [])
                []
          = lit ''<a href='' @ [sq] @ lit ''https://proxy.example/https://example.com/x'' @ [sq]
            @ lit ''>''"
    by code_simp
  from C10_quote_asymmetry[OF 1 3 4 5 6 7 8 9 10, of ?a ?b] t1
  have r1: "handleHtmlContent example_platform ?resp1 (lit ''https:'') (lit ''proxy.example'')
              (lit ''https://example.com/'')
            = Inr (lit ''<a href='' @ [sq] @ lit ''https://other.com/x'' @ [sq] @ lit ''>'')"
    unfolding e1 by blast
  from C10_quote_asymmetry[OF 2 3 4 5 6 7 8 9 10, of ?a ?c] t2
  have r2: "handleHtmlContent example_platform ?resp2 (lit ''https:'') (lit ''proxy.example'')
              (lit ''https://example.com/'')
            = Inr (lit ''<a href='' @ [sq] @ lit ''https://proxy.example/https://example.com/x'' @ [sq]
                   @ lit ''>'')"
    unfolding e2 by blast
  from r1 r2 show ?thesis
    by (rule conjI)
qed
end
